theory Spec2Isabelle
  imports Complex_Main "HOL-Library.Sublist"
begin

section \<open>LegalEase: the document analysis pipeline of \<^verbatim>\<open>legal_processor.py\<close>\<close>

text \<open>
  A shallow embedding of the methods of \<^verbatim>\<open>LegalDocumentProcessor\<close>. A Python \<^verbatim>\<open>str\<close> is a
  \<^typ>\<open>string\<close>, one \<^typ>\<open>char\<close> per code point. The embedding covers ASCII text: there
  \<^verbatim>\<open>str.lower\<close> and the \<^verbatim>\<open>re.IGNORECASE\<close> comparison touch the letters A to Z only, and
  \<^verbatim>\<open>len\<close> counts characters. A Python \<^verbatim>\<open>int\<close> is an \<^typ>\<open>int\<close>, a list a list, a
  \<^verbatim>\<open>dict\<close> an association list in insertion order (the order Python iterates it in).
\<close>

subsection \<open>The string operations of Python that the code uses\<close>

text \<open>
  \<^verbatim>\<open>str.lower\<close> on one character. A character is \<open>Char b0 \<dots> b7\<close>, least significant bit
  first; the capital letters are the codes 0x41 to 0x5A, and the small letter of a capital
  has bit 5 set.
\<close>

fun is_upper :: "char \<Rightarrow> bool" where
  "is_upper (Char b0 b1 b2 b3 b4 b5 b6 b7) =
     (\<not> b7 \<and> b6 \<and> \<not> b5 \<and> (b0 \<or> b1 \<or> b2 \<or> b3 \<or> b4) \<and> \<not> (b4 \<and> b3 \<and> (b2 \<or> (b1 \<and> b0))))"

fun is_lower :: "char \<Rightarrow> bool" where
  "is_lower (Char b0 b1 b2 b3 b4 b5 b6 b7) =
     (\<not> b7 \<and> b6 \<and> b5 \<and> (b0 \<or> b1 \<or> b2 \<or> b3 \<or> b4) \<and> \<not> (b4 \<and> b3 \<and> (b2 \<or> (b1 \<and> b0))))"

fun lower_char :: "char \<Rightarrow> char" where
  "lower_char (Char b0 b1 b2 b3 b4 b5 b6 b7) =
     (if is_upper (Char b0 b1 b2 b3 b4 b5 b6 b7) then Char b0 b1 b2 b3 b4 True b6 b7
      else Char b0 b1 b2 b3 b4 b5 b6 b7)"

fun upper_char :: "char \<Rightarrow> char" where
  "upper_char (Char b0 b1 b2 b3 b4 b5 b6 b7) =
     (if is_lower (Char b0 b1 b2 b3 b4 b5 b6 b7) then Char b0 b1 b2 b3 b4 False b6 b7
      else Char b0 b1 b2 b3 b4 b5 b6 b7)"

definition lower :: "string \<Rightarrow> string" where
  "lower s = map lower_char s"

text \<open>
  The characters \<^verbatim>\<open>str.strip()\<close>, \<^verbatim>\<open>str.split()\<close> and the class \<^verbatim>\<open>\s\<close> treat as white
  space, among the ASCII ones: tab, line feed, vertical tab, form feed, carriage return,
  the four separators 0x1C to 0x1F, and the space.
\<close>

definition is_space :: "char \<Rightarrow> bool" where
  "is_space c = (c \<in> set [CHR 0x20, CHR 0x0A, CHR 0x09, CHR 0x0D, CHR 0x0B, CHR 0x0C,
                            CHR 0x1C, CHR 0x1D, CHR 0x1E, CHR 0x1F])"

definition strip :: "string \<Rightarrow> string" where
  "strip s = rev (dropWhile is_space (rev (dropWhile is_space s)))"

text \<open>\<^verbatim>\<open>s.startswith(p)\<close> and the substring test \<^verbatim>\<open>p in s\<close>.\<close>

fun startswith :: "string \<Rightarrow> string \<Rightarrow> bool" where
  "startswith s [] = True"
| "startswith [] (p # ps) = False"
| "startswith (c # cs) (p # ps) = (c = p \<and> startswith cs ps)"

fun str_in :: "string \<Rightarrow> string \<Rightarrow> bool" where
  "str_in p [] = (p = [])"
| "str_in p (c # cs) = (startswith (c # cs) p \<or> str_in p cs)"

text \<open>\<^verbatim>\<open>s.find(p)\<close>: the index of the first occurrence, or -1.\<close>

fun find :: "string \<Rightarrow> string \<Rightarrow> int" where
  "find [] p = (if p = [] then 0 else -1)"
| "find (c # cs) p =
     (if startswith (c # cs) p then 0
      else (let r = find cs p in if r < 0 then -1 else r + 1))"

text \<open>The slice \<^verbatim>\<open>s[a:b]\<close> for \<open>0 \<le> a\<close> and \<open>0 \<le> b\<close>, and \<^verbatim>\<open>sep.join(xs)\<close>.\<close>

definition slice :: "string \<Rightarrow> int \<Rightarrow> int \<Rightarrow> string" where
  "slice s a b = take (nat b - nat a) (drop (nat a) s)"

fun join :: "string \<Rightarrow> string list \<Rightarrow> string" where
  "join sep [] = []"
| "join sep [x] = x"
| "join sep (x # y # ys) = x @ sep @ join sep (y # ys)"

text \<open>
  \<^verbatim>\<open>s.split(d)\<close> for a one-character separator (every separator splits, empty pieces are
  kept), and \<^verbatim>\<open>s.split()\<close>, which splits at runs of white space and keeps no empty piece.
\<close>

fun split_on :: "char \<Rightarrow> string \<Rightarrow> string list" where
  "split_on d [] = [[]]"
| "split_on d (c # cs) =
     (if c = d then [] # split_on d cs
      else (case split_on d cs of [] \<Rightarrow> [[c]] | w # ws \<Rightarrow> (c # w) # ws))"

fun split_ws_from :: "string \<Rightarrow> string \<Rightarrow> string list" where
  "split_ws_from cur [] = (if cur = [] then [] else [cur])"
| "split_ws_from cur (c # cs) =
     (if is_space c then (if cur = [] then split_ws_from [] cs else cur # split_ws_from [] cs)
      else split_ws_from (cur @ [c]) cs)"

definition split_ws :: "string \<Rightarrow> string list" where
  "split_ws s = split_ws_from [] s"

text \<open>
  \<^verbatim>\<open>list(dict.fromkeys(xs))\<close>: the elements of \<open>xs\<close> in the order of their first occurrence,
  each once.
\<close>

fun fromkeys_from :: "'a list \<Rightarrow> 'a list \<Rightarrow> 'a list" where
  "fromkeys_from seen [] = []"
| "fromkeys_from seen (x # xs) =
     (if x \<in> set seen then fromkeys_from seen xs else x # fromkeys_from (x # seen) xs)"

definition fromkeys :: "'a list \<Rightarrow> 'a list" where
  "fromkeys xs = fromkeys_from [] xs"

text \<open>
  \<^verbatim>\<open>str.title()\<close>: the first letter of every run of letters in upper case, the others in
  lower case. The flag says whether the character before was a letter.
\<close>

definition is_alpha :: "char \<Rightarrow> bool" where
  "is_alpha c = (is_upper c \<or> is_lower c)"

fun title_from :: "bool \<Rightarrow> string \<Rightarrow> string" where
  "title_from prev [] = []"
| "title_from prev (c # cs) =
     (if is_alpha c then (if prev then lower_char c else upper_char c) # title_from True cs
      else c # title_from False cs)"

definition title :: "string \<Rightarrow> string" where
  "title s = title_from False s"

text \<open>\<^verbatim>\<open>str(n)\<close> for a number \<open>n \<ge> 0\<close>, as an f-string prints a length or a count.\<close>

definition digit :: "nat \<Rightarrow> char" where
  "digit n = ''0123456789'' ! n"

fun str_nat :: "nat \<Rightarrow> string" where
  "str_nat n = (if n < 10 then [digit n] else str_nat (n div 10) @ [digit (n mod 10)])"

declare str_nat.simps [simp del]

text \<open>The characters of the class \<^verbatim>\<open>\w\<close> among the ASCII ones: letters, digits and the underscore.\<close>

definition is_word_char :: "char \<Rightarrow> bool" where
  "is_word_char c = (is_alpha c \<or> c \<in> set ''0123456789_'')"

subsection \<open>The regular expressions whose behaviour the properties depend on\<close>

text \<open>
  \<^verbatim>\<open>re.compile(re.escape(p), re.IGNORECASE).sub(r, s)\<close>: a scan from the left that replaces
  every match of the literal \<open>p\<close>, letters compared without case, and resumes after the
  match. No replacement of the table holds a backslash, so \<open>r\<close> is inserted as it is. The
  empty pattern (none in the table) matches before every character and at the end.
\<close>

fun prefix_ci :: "string \<Rightarrow> string \<Rightarrow> bool" where
  "prefix_ci [] s = True"
| "prefix_ci (p # ps) [] = False"
| "prefix_ci (p # ps) (c # cs) = (lower_char p = lower_char c \<and> prefix_ci ps cs)"

fun sub_ci :: "string \<Rightarrow> string \<Rightarrow> string \<Rightarrow> string" where
  "sub_ci [] r s = r @ concat (map (\<lambda>c. c # r) s)"
| "sub_ci (p # ps) r [] = []"
| "sub_ci (p # ps) r (c # cs) =
     (if prefix_ci (p # ps) (c # cs) then r @ sub_ci (p # ps) r (drop (length ps) cs)
      else c # sub_ci (p # ps) r cs)"

text \<open>
  \<^verbatim>\<open>re.split(r'[.!?]+', s)\<close>: the pieces between the runs of sentence terminators, the empty
  piece before a leading run and after a trailing one included.
\<close>

definition is_terminator :: "char \<Rightarrow> bool" where
  "is_terminator c = (c = CHR ''.'' \<or> c = CHR ''!'' \<or> c = CHR ''?'')"

fun split_sentences :: "string \<Rightarrow> string list" where
  "split_sentences [] = [[]]"
| "split_sentences (c # cs) =
     (if is_terminator c then
        (case cs of
           [] \<Rightarrow> [] # split_sentences cs
         | d # ds \<Rightarrow> if is_terminator d then split_sentences cs else [] # split_sentences cs)
      else (case split_sentences cs of [] \<Rightarrow> [[c]] | w # ws \<Rightarrow> (c # w) # ws))"

text \<open>
  \<^verbatim>\<open>re.split(r'\n\s*\n', s)\<close>. After a line feed, \<^verbatim>\<open>\s*\<close> takes the whole run of white space that
  follows and gives characters back until the last one it keeps is followed by a line feed:
  the match ends with the last line feed of the run. \<open>blank_len s\<close> is the number of
  characters of \<open>s\<close> that \<^verbatim>\<open>\s*\n\<close> matches at the start of \<open>s\<close>, and 0 when it does not match.
\<close>

definition blank_len :: "string \<Rightarrow> nat" where
  "blank_len s =
     (let ws = takeWhile is_space s
      in length ws - length (takeWhile (\<lambda>c. c \<noteq> CHR 0x0A) (rev ws)))"

fun split_blank_from :: "string \<Rightarrow> string \<Rightarrow> string list" where
  "split_blank_from cur [] = [cur]"
| "split_blank_from cur (c # cs) =
     (if c = CHR 0x0A \<and> 0 < blank_len cs
      then cur # split_blank_from [] (drop (blank_len cs) cs)
      else split_blank_from (cur @ [c]) cs)"

definition split_blank :: "string \<Rightarrow> string list" where
  "split_blank s = split_blank_from [] s"

text \<open>
  \<^verbatim>\<open>len(re.findall(r'\b(?:penalty|penalties)\b', s))\<close>: the number of matches, found from the
  left, each search resuming after the match before. A match starts where the character
  before is no word character (the flag) and ends where the character after is none.
\<close>

definition word_at :: "string \<Rightarrow> string \<Rightarrow> bool" where
  "word_at w s =
     (startswith s w \<and> (case drop (length w) s of [] \<Rightarrow> True | d # ds \<Rightarrow> \<not> is_word_char d))"

fun count_penalty :: "bool \<Rightarrow> string \<Rightarrow> nat" where
  "count_penalty prev [] = 0"
| "count_penalty prev (c # cs) =
     (if \<not> prev \<and> word_at ''penalty'' (c # cs) then Suc (count_penalty True (drop 6 cs))
      else if \<not> prev \<and> word_at ''penalties'' (c # cs) then Suc (count_penalty True (drop 8 cs))
      else count_penalty (is_word_char c) cs)"

text \<open>A match of the literal \<open>p\<close>, letters compared without case, somewhere in \<open>s\<close>.\<close>

fun contains_ci :: "string \<Rightarrow> string \<Rightarrow> bool" where
  "contains_ci p [] = (p = [])"
| "contains_ci p (c # cs) = (prefix_ci p (c # cs) \<or> contains_ci p cs)"

text \<open>A match of \<open>t\<close> that starts inside \<open>r\<close>, in the text \<open>r @ x\<close>.\<close>

fun contains_start :: "string \<Rightarrow> string \<Rightarrow> string \<Rightarrow> bool" where
  "contains_start t [] x = False"
| "contains_start t (r # rs) x = (prefix_ci t (r # rs @ x) \<or> contains_start t rs x)"

subsection \<open>\<^verbatim>\<open>simplify_legal_language\<close>\<close>

text \<open>The table \<^verbatim>\<open>simplifications\<close>, in the order the dictionary literal lists it.\<close>

definition simplifications :: "(string \<times> string) list" where
  "simplifications = [
    (''hereinafter'', ''from now on''),
    (''heretofore'', ''before this''),
    (''whereas'', ''since''),
    (''hereby'', ''by this document''),
    (''thereof'', ''of that''),
    (''wherein'', ''in which''),
    (''notwithstanding'', ''despite''),
    (''pursuant to'', ''according to''),
    (''in consideration of'', ''in exchange for''),
    (''force majeure'', ''unforeseeable circumstances''),
    (''liquidated damages'', ''pre-agreed compensation''),
    (''indemnify'', ''protect from loss''),
    (''hold harmless'', ''not hold responsible''),
    (''covenant'', ''promise''),
    (''assign'', ''transfer''),
    (''breach'', ''break the agreement''),
    (''cure'', ''fix the problem''),
    (''default'', ''fail to meet obligations''),
    (''remedy'', ''solution''),
    (''waiver'', ''giving up a right''),
    (''perpetuity'', ''forever''),
    (''forthwith'', ''immediately''),
    (''inter alia'', ''among other things''),
    (''shall'', ''must''),
    (''shall not'', ''must not'')]"

definition simplify_step :: "string \<Rightarrow> string \<times> string \<Rightarrow> string" where
  "simplify_step result rule = sub_ci (fst rule) (snd rule) result"

definition simplify_legal_language :: "string \<Rightarrow> string" where
  "simplify_legal_language text = foldl simplify_step text simplifications"

text \<open>
  The phrases the table replaces, and the texts in which the only phrase of the table that
  occurs is "hereby".
\<close>

definition triggers :: "string list" where
  "triggers = map fst simplifications"

definition only_hereby_triggers :: "string \<Rightarrow> bool" where
  "only_hereby_triggers text = list_all (\<lambda>p. p = ''hereby'' \<or> \<not> contains_ci p text) triggers"

subsection \<open>Values, exceptions and the library\<close>

text \<open>
  An exception that was raised, with the text \<^verbatim>\<open>str(e)\<close> prints for it. A computation that
  may raise returns \<open>Inl e\<close> when it does; \<open>and_then\<close> runs the next statement after a
  statement that returned, and \<open>for_each\<close> is a loop whose body may raise.
\<close>

datatype exn = Exception string

definition and_then :: "exn + 'a \<Rightarrow> ('a \<Rightarrow> exn + 'b) \<Rightarrow> exn + 'b" where
  "and_then m f = (case m of Inl e \<Rightarrow> Inl e | Inr x \<Rightarrow> f x)"

fun for_each :: "('a \<Rightarrow> exn + 'b) \<Rightarrow> 'a list \<Rightarrow> exn + 'b list" where
  "for_each f [] = Inr []"
| "for_each f (x # xs) = and_then (f x) (\<lambda>y. and_then (for_each f xs) (\<lambda>ys. Inr (y # ys)))"

text \<open>
  Dictionaries with string keys: \<^verbatim>\<open>d[k]\<close>, which raises \<^verbatim>\<open>KeyError\<close> on a missing key,
  \<^verbatim>\<open>d.get(k, default)\<close>, and \<^verbatim>\<open>d[k].append(x)\<close> for a key that \<open>d\<close> has (the code appends
  under keys of the dictionary's own literal only).
\<close>

definition getitem :: "(string \<times> 'v) list \<Rightarrow> string \<Rightarrow> exn + 'v" where
  "getitem d k =
     (case map_of d k of
        None \<Rightarrow> Inl (Exception ([CHR 0x27] @ k @ [CHR 0x27]))
      | Some v \<Rightarrow> Inr v)"

definition dict_get :: "(string \<times> 'v) list \<Rightarrow> string \<Rightarrow> 'v \<Rightarrow> 'v" where
  "dict_get d k dflt = (case map_of d k of None \<Rightarrow> dflt | Some v \<Rightarrow> v)"

definition append_at :: "(string \<times> 'a list) list \<Rightarrow> string \<Rightarrow> 'a \<Rightarrow> (string \<times> 'a list) list" where
  "append_at d k x = map (\<lambda>(k', xs). if k' = k then (k', xs @ [x]) else (k', xs)) d"

text \<open>
  The regular expression engine and the interpreter's hash tables are outside the repository.
  Where no property depends on what a pattern matches, the engine is a parameter:
  \<^item> \<open>re_findall lib p s\<close> is \<^verbatim>\<open>re.findall(p, s, re.IGNORECASE)\<close> for a pattern with at most one
    group, the list of the matches (of the group, when there is one), or an exception;
  \<^item> \<open>re_search lib p s\<close> is \<^verbatim>\<open>re.search(p, s, re.IGNORECASE)\<close> for a pattern with one group:
    \<open>None\<close> when nothing matches, else the text of group 1;
  \<^item> \<open>set_list lib xs\<close> is \<^verbatim>\<open>list(set(xs))\<close>, in the order the hash table yields.
  The backslash of a pattern is written \<open>bs\<close>.
\<close>

record library =
  re_findall :: "string \<Rightarrow> string \<Rightarrow> exn + string list"
  re_search :: "string \<Rightarrow> string \<Rightarrow> exn + string option"
  set_list :: "string list \<Rightarrow> string list"

definition bs :: string where
  "bs = [CHR 0x5C]"

text \<open>The value that \<^verbatim>\<open>process_contract\<close> returns: strings, numbers, lists and dictionaries.\<close>

datatype pyval = PStr string | PInt int | PList "pyval list" | PDict "(string \<times> pyval) list"

definition py_strs :: "string list \<Rightarrow> pyval" where
  "py_strs xs = PList (map PStr xs)"

definition py_str_dict :: "(string \<times> string) list \<Rightarrow> pyval" where
  "py_str_dict d = PDict (map (\<lambda>(k, v). (k, PStr v)) d)"

definition py_list_dict :: "(string \<times> string list) list \<Rightarrow> pyval" where
  "py_list_dict d = PDict (map (\<lambda>(k, v). (k, py_strs v)) d)"

subsection \<open>\<^verbatim>\<open>_extract_context_around_phrase\<close>\<close>

definition extract_context_around_phrase :: "string \<Rightarrow> string \<Rightarrow> int \<Rightarrow> string" where
  "extract_context_around_phrase text phrase context_length =
     (let text_lower = lower text;
          phrase_lower = lower phrase;
          index = find text_lower phrase_lower
      in if index = -1
         then ''The term '' @ [CHR 0x27] @ phrase @ [CHR 0x27] @ '' appears in the contract''
         else (let start = max 0 (index - context_length);
                   stop = min (int (length text)) (index + int (length phrase) + context_length);
                   context = strip (slice text start stop)
               in if length context > 200 then take 200 context @ ''...'' else context))"

subsection \<open>\<^verbatim>\<open>extract_legal_terms_from_text\<close>\<close>

definition legal_term_definitions :: "(string \<times> string) list" where
  "legal_term_definitions =
    [(''whereas'', ''since; considering that''),
     (''hereby'', ''by this document''),
     (''herein'', ''in this document''),
     (''hereinafter'', ''from now on in this document''),
     (''heretofore'', ''before this time''),
     (''thereafter'', ''after that time''),
     (''notwithstanding'', ''despite; in spite of''),
     (''pursuant to'', ''according to; in accordance with''),
     (''in consideration of'', ''in exchange for''),
     (''covenant'', ''legally binding promise''),
     (''indemnify'', ''protect from loss or damage''),
     (''liquidated damages'', ''predetermined compensation for breach''),
     (''force majeure'', ''unforeseeable circumstances beyond control''),
     (''breach'', ''violation of contract terms''),
     (''cure'', ''fix or remedy a problem''),
     (''default'', ''failure to meet obligations''),
     (''termination'', ''ending of the contract''),
     (''void'', ''having no legal effect''),
     (''voidable'', ''can be made void under certain conditions''),
     (''severability'', ''if one part is invalid, the rest remains valid''),
     (''waiver'', ''giving up a right voluntarily''),
     (''assignment'', ''transfer of rights to another party''),
     (''novation'', ''replacement of a contract with a new one''),
     (''rescission'', ''cancellation of a contract''),
     (''specific performance'', ''court order to fulfill contract exactly''),
     (''injunctive relief'', ''court order to do or stop doing something''),
     (''damages'', ''monetary compensation for loss''),
     (''consequential damages'', ''indirect losses resulting from breach''),
     (''incidental damages'', ''additional costs due to breach''),
     (''punitive damages'', ''punishment damages beyond actual loss''),
     (''mitigation'', ''reducing the amount of damages''),
     (''material breach'', (''serious violation affecting the contract'' @ [CHR 0x27]
                             @ ''s essence'')),
     (''anticipatory breach'', ''indication that breach will occur in future''),
     (''substantial performance'', ''performance that meets essential requirements''),
     (''conditions precedent'', ''events that must occur before obligations arise''),
     (''conditions subsequent'', ''events that end existing obligations''),
     (''representations'', ''statements of fact made to induce contract formation''),
     (''warranties'', ''promises about the quality or condition of something''),
     (''indemnification'', ''compensation for harm or loss''),
     (''hold harmless'', ''agreement not to hold someone responsible''),
     (''liability'', ''legal responsibility for damages''),
     (''limitation of liability'', ''restriction on the amount of responsibility''),
     (''arbitration'', ''dispute resolution outside of court''),
     (''mediation'', ''assisted negotiation to resolve disputes''),
     (''jurisdiction'', ''authority of a court to hear a case''),
     (''governing law'', (''which state or country'' @ [CHR 0x27] @ ''s laws apply'')),
     (''venue'', ''location where legal proceedings take place''),
     (''statute of limitations'', ''time limit for bringing legal action''),
     (''confidentiality'', ''obligation to keep information secret''),
     (''non-disclosure'', ''agreement not to reveal information''),
     (''proprietary'', ''privately owned or exclusive''),
     (''intellectual property'', ''creations of the mind (patents, trademarks, etc.)''),
     (''trade secret'', ''confidential business information''),
     (''non-compete'', ''agreement not to compete with former employer''),
     (''non-solicitation'', ''agreement not to recruit employees or customers''),
     (''exclusivity'', ''sole rights to something''),
     (''royalty'', ''payment for use of property or rights''),
     (''escrow'', ''third party holds money/documents until conditions are met''),
     (''fiduciary'', ''relationship of trust and confidence''),
     (''due diligence'', ''reasonable investigation or care''),
     (''good faith'', ''honest intention and fair dealing''),
     (''best efforts'', ''maximum effort reasonably possible''),
     (''reasonable efforts'', ''efforts that a reasonable person would make''),
     (''time is of the essence'', ''deadlines are critically important'')]"

definition default_terms :: "(string \<times> string) list list" where
  "default_terms =
    [[(''term'', ''Agreement''),
      (''definition'', ''A mutual understanding between parties''),
      (''context'', ''This agreement establishes terms and conditions'')],
     [(''term'', ''Party''),
      (''definition'', ''An individual or entity entering into a contract''),
      (''context'', ''Each party has rights and obligations'')],
     [(''term'', ''Terms''),
      (''definition'', ''Conditions and provisions of a contract''),
      (''context'', ''The terms of this contract are binding'')]]"

text \<open>
  A key term is the dictionary \<^verbatim>\<open>{"term": ..., "definition": ..., "context": ...}\<close>. The loop
  appends one for every entry of the glossary whose term occurs in the lowered text.
\<close>

definition found_term :: "string \<Rightarrow> string \<times> string \<Rightarrow> (string \<times> string) list" where
  "found_term text entry =
     [(''term'', title (fst entry)),
      (''definition'', snd entry),
      (''context'', extract_context_around_phrase text (fst entry) 80)]"

definition extract_legal_terms_from_text :: "string \<Rightarrow> (string \<times> string) list list" where
  "extract_legal_terms_from_text text =
     (let text_lower = lower text;
          found_terms = map (found_term text)
                          (filter (\<lambda>entry. str_in (lower (fst entry)) text_lower)
                             legal_term_definitions)
      in take 15 (if found_terms = [] then default_terms else found_terms))"

subsection \<open>\<^verbatim>\<open>_determine_contract_type\<close> and \<^verbatim>\<open>_extract_main_subject\<close>\<close>

definition contract_types :: "(string \<times> string list) list" where
  "contract_types =
    [(''service agreement'', [''service'', ''services'', ''provide'', ''perform'',
                               ''consulting'']),
     (''employment contract'', [''employment'', ''employee'', ''employer'', ''salary'',
                                 ''benefits'', ''job'']),
     (''lease agreement'', [''lease'', ''rent'', ''tenant'', ''landlord'', ''property'',
                             ''premises'']),
     (''purchase agreement'', [''purchase'', ''buy'', ''sell'', ''goods'', ''product'',
                                ''merchandise'']),
     (''license agreement'', [''license'', ''licensing'', ''intellectual property'',
                               ''software'', ''patent'']),
     (''partnership agreement'', [''partnership'', ''partner'', ''joint venture'',
                                   ''collaborate'']),
     (''non-disclosure agreement'', [''confidential'', ''non-disclosure'', ''nda'',
                                      ''proprietary'']),
     (''loan agreement'', [''loan'', ''lend'', ''borrow'', ''credit'', ''debt'', ''principal'']),
     (''construction contract'', [''construction'', ''build'', ''contractor'', ''materials'',
                                   ''project'']),
     (''supply agreement'', [''supply'', ''supplier'', ''deliver'', ''goods'', ''materials''])]"

text \<open>
  \<^verbatim>\<open>sum(1 for keyword in keywords if keyword in text_lower)\<close>, and \<^verbatim>\<open>max(scores, key=scores.get)\<close>:
  the first key, in insertion order, whose score no other key exceeds.
\<close>

definition keyword_score :: "string list \<Rightarrow> string \<Rightarrow> nat" where
  "keyword_score keywords text_lower = length (filter (\<lambda>keyword. str_in keyword text_lower) keywords)"

fun max_by_score :: "string \<times> nat \<Rightarrow> (string \<times> nat) list \<Rightarrow> string" where
  "max_by_score best [] = fst best"
| "max_by_score best (x # xs) =
     (if snd best < snd x then max_by_score x xs else max_by_score best xs)"

definition determine_contract_type :: "string \<Rightarrow> string" where
  "determine_contract_type text =
     (let text_lower = lower text;
          scores = filter (\<lambda>(contract_type, score). 0 < score)
                     (map (\<lambda>(contract_type, keywords). (contract_type, keyword_score keywords text_lower))
                        contract_types)
      in case scores of [] \<Rightarrow> ''general agreement'' | s # ss \<Rightarrow> max_by_score s ss)"

definition subject_patterns :: "string list" where
  "subject_patterns =
    [(''(?:for the|regarding the|concerning the|related to the)'' @ bs @ ''s+([^.]{10,50})''),
     (''(?:provision of|supply of|delivery of|performance of)'' @ bs @ ''s+([^.]{10,50})''),
     (''this agreement covers'' @ bs @ ''s+([^.]{10,50})''),
     (''the purpose of this agreement is'' @ bs @ ''s+([^.]{10,50})'')]"

definition type_subjects :: "(string \<times> string) list" where
  "type_subjects =
    [(''service agreement'', ''professional services and consulting''),
     (''employment contract'', ''employment relationship and duties''),
     (''lease agreement'', ''property rental and occupancy''),
     (''purchase agreement'', ''goods purchase and delivery''),
     (''license agreement'', ''intellectual property licensing''),
     (''partnership agreement'', ''business partnership and collaboration''),
     (''non-disclosure agreement'', ''confidential information protection''),
     (''loan agreement'', ''financial lending and repayment''),
     (''construction contract'', ''construction project and specifications''),
     (''supply agreement'', ''goods supply and delivery'')]"

text \<open>The loop over the patterns returns at the first one that matches.\<close>

fun first_subject :: "library \<Rightarrow> string list \<Rightarrow> string \<Rightarrow> exn + string option" where
  "first_subject lib [] text = Inr None"
| "first_subject lib (pattern # patterns) text =
     and_then (re_search lib pattern text) (\<lambda>match.
       case match of
         Some group1 \<Rightarrow>
           (let subject = strip group1
            in Inr (Some (if length subject > 100 then take 100 subject @ ''...'' else subject)))
       | None \<Rightarrow> first_subject lib patterns text)"

definition extract_main_subject :: "library \<Rightarrow> string \<Rightarrow> string \<Rightarrow> exn + string" where
  "extract_main_subject lib text contract_type =
     and_then (first_subject lib subject_patterns text) (\<lambda>found.
       case found of
         Some subject \<Rightarrow> Inr subject
       | None \<Rightarrow> Inr (dict_get type_subjects contract_type ''business relationship and obligations''))"

subsection \<open>\<^verbatim>\<open>extract_precise_obligations\<close>\<close>

definition obligation_keywords :: "string list" where
  "obligation_keywords =
    [''shall'', ''must'', ''will'', ''agrees to'', ''undertakes to'', ''commits to'',
     ''responsible for'', ''liable for'', ''duty to'', ''obligation to'', ''required to'',
     ''bound to'', ''covenant to'']"

definition critical_keywords :: "string list" where
  "critical_keywords =
    [''payment'', ''deliver'', ''complete'', ''maintain'', ''comply'', ''perform'', ''provide'']"

definition payment_keywords :: "string list" where
  "payment_keywords =
    [''pay'', ''payment'', ''remit'', ''compensation'', ''fee'', ''amount'', ''invoice'']"

definition performance_keywords :: "string list" where
  "performance_keywords =
    [''deliver'', ''perform'', ''complete'', ''execute'', ''provide'', ''supply'']"

text \<open>\<^verbatim>\<open>any(keyword in s for keyword in keywords)\<close>.\<close>

definition any_in :: "string list \<Rightarrow> string \<Rightarrow> bool" where
  "any_in keywords s = list_ex (\<lambda>keyword. str_in keyword s) keywords"

definition clean_obligation :: "string \<Rightarrow> string" where
  "clean_obligation sentence =
     (if length sentence > 300 then take 300 sentence @ ''...'' else sentence)"

text \<open>One round of the loop over the sentences: the dictionary before, the sentence, the dictionary after.\<close>

definition obligation_step :: "(string \<times> string list) list \<Rightarrow> string \<Rightarrow> (string \<times> string list) list" where
  "obligation_step obligations sentence0 =
     (let sentence = strip sentence0
      in if length sentence < 20 then obligations
         else (let sentence_lower = lower sentence
               in if any_in obligation_keywords sentence_lower
                  then (let c = clean_obligation sentence;
                            o1 = append_at obligations ''all_obligations'' c;
                            o2 = (if any_in critical_keywords sentence_lower
                                  then append_at o1 ''critical_obligations'' c else o1);
                            o3 = (if any_in payment_keywords sentence_lower
                                  then append_at o2 ''payment_obligations'' c else o2);
                            o4 = (if any_in performance_keywords sentence_lower
                                  then append_at o3 ''performance_obligations'' c else o3)
                        in o4)
                  else obligations))"

definition no_obligations :: "(string \<times> string list) list" where
  "no_obligations =
    [(''all_obligations'', []),
     (''critical_obligations'', []),
     (''payment_obligations'', []),
     (''performance_obligations'', [])]"

definition extract_precise_obligations :: "string \<Rightarrow> (string \<times> string list) list" where
  "extract_precise_obligations text =
     (let sentences = split_sentences text;
          obligations = foldl obligation_step no_obligations sentences
      in map (\<lambda>(key, found).
                if found = [] then (key, [''No specific obligations identified in this category''])
                else (key, take 10 (fromkeys found)))
           obligations)"

text \<open>
  The same result stated without the loop and the dictionary, for comparison: the excerpts
  of a category are those of the stripped sentences of at least 20 characters that hold an
  obligation keyword and a keyword of the category, in the order of the text; the list
  returned for the category is their de-duplication cut to ten, or the placeholder.
\<close>

definition obligation_categories :: "(string \<times> string list) list" where
  "obligation_categories =
     [(''all_obligations'', obligation_keywords),
      (''critical_obligations'', critical_keywords),
      (''payment_obligations'', payment_keywords),
      (''performance_obligations'', performance_keywords)]"

definition obligation_excerpts :: "string list \<Rightarrow> string list \<Rightarrow> string list" where
  "obligation_excerpts keywords sentences =
     map clean_obligation
       (filter (\<lambda>s. 20 \<le> length s \<and> any_in obligation_keywords (lower s) \<and> any_in keywords (lower s))
          (map strip sentences))"

definition category_list :: "string list \<Rightarrow> string list" where
  "category_list excerpts =
     (if excerpts = [] then [''No specific obligations identified in this category'']
      else take 10 (fromkeys excerpts))"

subsection \<open>\<^verbatim>\<open>assess_contract_risks\<close>\<close>

definition risk_indicators :: "(string \<times> (string \<times> int) list) list" where
  "risk_indicators =
    [(''high'', [(''unlimited liability'', 3),
                  (''personal guarantee'', 3),
                  (''liquidated damages'', 3),
                  (''specific performance'', 3),
                  (''criminal liability'', 4),
                  (''punitive damages'', 3),
                  (''indemnify'', 2),
                  (''hold harmless'', 2),
                  (''strict liability'', 3),
                  (''immediate termination'', 2),
                  (''no cure period'', 3),
                  (''forfeiture'', 3)]),
     (''medium'', [(''limitation of liability'', -1),
                    (''material breach'', 2),
                    (''cure period'', -1),
                    (''force majeure'', -1),
                    (''reasonable efforts'', 1),
                    (''best efforts'', 2),
                    (''consequential damages'', 2),
                    (''indirect damages'', 2),
                    (''arbitration'', -1),
                    (''mediation'', -1)]),
     (''low'', [(''mutual'', -1),
                 (''standard terms'', -1),
                 (''industry standard'', -1),
                 (''reasonable'', -1),
                 (''good faith'', -1),
                 (''fair dealing'', -1),
                 (''customary'', -1),
                 (''typical'', -1)])]"

text \<open>
  The result is the dictionary \<^verbatim>\<open>{"risk_level", "risk_score", "reasons", "detailed_analysis"}\<close>,
  a record here (\<^verbatim>\<open>RiskAssessment\<close> in \<^verbatim>\<open>models.py\<close>); an entry of the detailed analysis is the
  dictionary \<^verbatim>\<open>{"factor", "impact", "context"}\<close>.
\<close>

record risk_assessment =
  risk_level :: string
  risk_score :: int
  reasons :: "string list"
  detailed_analysis :: "(string \<times> string) list list"

text \<open>
  The state of the scan: the variables \<^verbatim>\<open>risk_score\<close> (here \<open>score\<close>), \<^verbatim>\<open>risk_reasons\<close> and
  \<^verbatim>\<open>detailed_analysis\<close>. One round of the inner loop, for the indicator and its points:
\<close>

type_synonym risk_state = "int \<times> string list \<times> (string \<times> string) list list"

definition risk_step :: "string \<Rightarrow> string \<Rightarrow> risk_state \<Rightarrow> string \<times> int \<Rightarrow> risk_state" where
  "risk_step text text_lower state entry =
     (case state of (score, risk_reasons, analysis) \<Rightarrow>
      case entry of (indicator, points) \<Rightarrow>
        if str_in indicator text_lower
        then (let context = extract_context_around_phrase text indicator 100;
                  risk_type = (if 0 < points then ''increases'' else ''reduces'')
              in (score + points,
                  risk_reasons @ [''Found '' @ [CHR 0x27] @ indicator @ [CHR 0x27] @ '' which ''
                                   @ risk_type @ '' risk''],
                  analysis @ [[(''factor'', indicator),
                               (''impact'', risk_type @ '' risk by '' @ str_nat (nat \<bar>points\<bar>) @ '' points''),
                               (''context'', if length context > 150 then take 150 context @ ''...''
                                             else context)]]))
        else state)"

definition without_limitation :: "string \<Rightarrow> risk_state \<Rightarrow> risk_state" where
  "without_limitation text_lower state =
     (case state of (score, risk_reasons, analysis) \<Rightarrow>
        if str_in ''without limitation'' text_lower
        then (score + 2,
              risk_reasons @ [''Broad liability clause without limitations''],
              analysis @ [[(''factor'', ''without limitation''),
                           (''impact'', ''increases risk by 2 points''),
                           (''context'', ''Broad liability exposure identified'')]])
        else state)"

definition at_will :: "string \<Rightarrow> risk_state \<Rightarrow> risk_state" where
  "at_will text_lower state =
     (case state of (score, risk_reasons, analysis) \<Rightarrow>
        if str_in ''at will'' text_lower
        then (score + 1, risk_reasons @ [''At-will provisions increase uncertainty''], analysis)
        else state)"

definition penalty_clauses :: "string \<Rightarrow> risk_state \<Rightarrow> risk_state" where
  "penalty_clauses text_lower state =
     (case state of (score, risk_reasons, analysis) \<Rightarrow>
        if 2 < count_penalty False text_lower
        then (score + 2, risk_reasons @ [''Multiple penalty clauses identified''], analysis)
        else state)"

text \<open>The state when the level is decided: after the two loops and the three additional factors.\<close>

definition risk_scan :: "string \<Rightarrow> risk_state" where
  "risk_scan text =
     (let text_lower = lower text;
          s0 = (0, [], []);
          s1 = foldl (\<lambda>state (level, indicators). foldl (risk_step text text_lower) state indicators)
                 s0 risk_indicators;
          s2 = without_limitation text_lower s1;
          s3 = at_will text_lower s2;
          s4 = penalty_clauses text_lower s3
      in s4)"

definition assess_contract_risks :: "string \<Rightarrow> risk_assessment" where
  "assess_contract_risks text =
     (case risk_scan text of (score, risk_reasons0, analysis0) \<Rightarrow>
        (let overall_risk =
               (if 8 \<le> score then ''HIGH''
                else if 4 \<le> score then ''MEDIUM''
                else if 0 \<le> score then ''LOW''
                else ''VERY LOW'');
             risk_reasons =
               (if risk_reasons0 = [] then [''Standard contract terms with typical risk level'']
                else risk_reasons0);
             analysis =
               (if analysis0 = []
                then [[(''factor'', ''general terms''),
                       (''impact'', ''standard risk level''),
                       (''context'', ''No specific high-risk factors identified'')]]
                else analysis0)
         in \<lparr>risk_level = overall_risk,
             risk_score = max 0 score,
             reasons = take 10 risk_reasons,
             detailed_analysis = take 8 analysis\<rparr>))"

text \<open>The value of the variable \<^verbatim>\<open>risk_score\<close> when the level is decided, before \<^verbatim>\<open>max(0, risk_score)\<close>.\<close>

definition raw_risk_score :: "string \<Rightarrow> int" where
  "raw_risk_score text = fst (risk_scan text)"

subsection \<open>\<^verbatim>\<open>identify_contract_sections\<close>\<close>

definition section_keywords :: "(string \<times> string list) list" where
  "section_keywords =
    [(''payment_terms'', [''payment'', ''fee'', ''cost'', ''amount'', ''invoice'',
                           ''billing'', ''due'', ''remuneration'', ''compensation'',
                           ''salary'', ''wage'', ''price'', ''consideration'',
                           ''installment'', ''deposit'']),
     (''termination_clauses'', [''termination'', ''terminate'', ''expire'', ''expiration'',
                                 ''end'', ''conclude'', ''dissolution'', ''cancellation'',
                                 ''breach'', ''default'', ''notice period'', ''wind up'']),
     (''liability_limitations'', [''liability'', ''damages'', ''limitation'', ''limit'',
                                   ''responsible'', ''accountable'', ''indemnify'',
                                   ''indemnification'', ''harm'', ''loss'', ''consequential'',
                                   ''indirect'']),
     (''warranty_disclaimers'', [''warranty'', ''guarantee'', ''assurance'', ''as is'',
                                  ''disclaim'', ''merchantability'', ''fitness'', ''defect'',
                                  ''condition'', ''representation'']),
     (''confidentiality'', [''confidential'', ''non-disclosure'', ''nda'', ''proprietary'',
                             ''trade secret'', ''classified'', ''private'', ''sensitive'']),
     (''intellectual_property'', [''intellectual property'', ''copyright'', ''patent'',
                                   ''trademark'', ''trade secret'', ''proprietary'',
                                   ''ownership'', ''license'', ''derivative works'']),
     (''dispute_resolution'', [''dispute'', ''arbitration'', ''mediation'', ''jurisdiction'',
                                ''governing law'', ''venue'', ''litigation'', ''court'']),
     (''general_terms'', [])]"

text \<open>
  The paragraphs: the pieces between blank lines that are longer than 50 characters once
  stripped, and when there is none, the sentences longer than 100 characters.
\<close>

definition paragraphs :: "string \<Rightarrow> string list" where
  "paragraphs text =
     (let ps = map strip (filter (\<lambda>p. strip p \<noteq> [] \<and> length (strip p) > 50) (split_blank text))
      in if ps = []
         then map strip (filter (\<lambda>s. length (strip s) > 100) (split_sentences text))
         else ps)"

text \<open>The inner loop: \<^verbatim>\<open>best_match\<close> after all the categories, from \<^verbatim>\<open>("general_terms", 0)\<close>.\<close>

definition best_step :: "string \<Rightarrow> string \<times> nat \<Rightarrow> string \<times> string list \<Rightarrow> string \<times> nat" where
  "best_step para_lower best_match category =
     (case category of (section_type, keywords) \<Rightarrow>
        if section_type = ''general_terms'' then best_match
        else (let keyword_matches = keyword_score keywords para_lower
              in if snd best_match < keyword_matches then (section_type, keyword_matches)
                 else best_match))"

definition best_match :: "string \<Rightarrow> string \<times> nat" where
  "best_match paragraph =
     foldl (best_step (lower paragraph)) (''general_terms'', 0) section_keywords"

definition classify_step :: "(string \<times> string list) list \<Rightarrow> string \<Rightarrow> (string \<times> string list) list" where
  "classify_step sections paragraph =
     (let best = best_match paragraph
      in if 0 < snd best then append_at sections (fst best) paragraph
         else append_at sections ''general_terms'' paragraph)"

definition identify_contract_sections :: "string \<Rightarrow> (string \<times> string list) list" where
  "identify_contract_sections text =
     foldl classify_step (map (\<lambda>(k, keywords). (k, [])) section_keywords) (paragraphs text)"

text \<open>
  The bucket the loop body appends a paragraph to, and the number of keywords of the
  category at a position of the table (0 to 6 are the categories with keywords, 7 is
  \<^verbatim>\<open>general_terms\<close>) that occur in the lowered paragraph.
\<close>

definition bucket :: "string \<Rightarrow> string" where
  "bucket paragraph =
     (let best = best_match paragraph in if 0 < snd best then fst best else ''general_terms'')"

definition category_score :: "nat \<Rightarrow> string \<Rightarrow> nat" where
  "category_score i paragraph = keyword_score (snd (section_keywords ! i)) (lower paragraph)"

text \<open>
  The other count the words "keyword occurrences" can mean, for comparison: every
  occurrence of every keyword of the category in the lowered paragraph, as \<^verbatim>\<open>str.count\<close>
  counts them (from the left, without overlap).
\<close>

fun count_str :: "string \<Rightarrow> string \<Rightarrow> nat" where
  "count_str s [] = Suc (length s)"
| "count_str [] (p # ps) = 0"
| "count_str (c # cs) (p # ps) =
     (if startswith (c # cs) (p # ps) then Suc (count_str (drop (length ps) cs) (p # ps))
      else count_str cs (p # ps))"

definition occurrence_count :: "nat \<Rightarrow> string \<Rightarrow> nat" where
  "occurrence_count i paragraph =
     sum_list (map (count_str (lower paragraph)) (snd (section_keywords ! i)))"

subsection \<open>\<^verbatim>\<open>extract_key_entities\<close>, \<^verbatim>\<open>extract_financial_terms\<close> and \<^verbatim>\<open>extract_timeline\<close>\<close>

definition entity_patterns :: "(string \<times> string) list" where
  "entity_patterns =
    [(''amounts'', (bs @ ''$['' @ bs @ ''d,]+(?:'' @ bs @ ''.'' @ bs @ ''d{2})?|'' @ bs
                     @ ''b'' @ bs @ ''d+(?:,'' @ bs @ ''d{3})*(?:'' @ bs @ ''.'' @ bs
                     @ ''d{2})?'' @ bs @ ''s*(?:dollars?|USD|'' @ bs @ ''$)'')),
     (''dates'', (bs @ ''b(?:'' @ bs @ ''d{1,2}[/-]'' @ bs @ ''d{1,2}[/-]'' @ bs @ ''d{2,4}|''
                   @ bs @ ''w+'' @ bs @ ''s+'' @ bs @ ''d{1,2},?'' @ bs @ ''s+'' @ bs @ ''d{4}|''
                   @ bs @ ''d{1,2}'' @ bs @ ''s+'' @ bs @ ''w+'' @ bs @ ''s+'' @ bs @ ''d{4})'')),
     (''percentages'', (bs @ ''b'' @ bs @ ''d+(?:'' @ bs @ ''.'' @ bs @ ''d+)?%|'' @ bs
                         @ ''b'' @ bs @ ''d+(?:'' @ bs @ ''.'' @ bs @ ''d+)?'' @ bs
                         @ ''s*percent'')),
     (''timeframes'', (bs @ ''b'' @ bs @ ''d+'' @ bs
                        @ ''s*(?:days?|weeks?|months?|years?|hours?)'' @ bs @ ''b'')),
     (''addresses'', (bs @ ''b'' @ bs @ ''d+'' @ bs @ ''s+[A-Z][a-zA-Z'' @ bs
                       @ ''s]+(?:Street|St'' @ bs @ ''.?|Avenue|Ave'' @ bs @ ''.?|Road|Rd'' @ bs
                       @ ''.?|Drive|Dr'' @ bs @ ''.?|Lane|Ln'' @ bs @ ''.?)'')),
     (''phone_numbers'', (bs @ ''b(?:'' @ bs @ ''(?'' @ bs @ ''d{3}'' @ bs @ '')?[-.'' @ bs
                           @ ''s]?'' @ bs @ ''d{3}[-.'' @ bs @ ''s]?'' @ bs @ ''d{4})'' @ bs
                           @ ''b'')),
     (''email_addresses'', (bs @ ''b[A-Za-z0-9._%+-]+@[A-Za-z0-9.-]+'' @ bs
                             @ ''.[A-Z|a-z]{2,}'' @ bs @ ''b''))]"

definition extract_key_entities :: "library \<Rightarrow> string \<Rightarrow> exn + (string \<times> string list) list" where
  "extract_key_entities lib text =
     for_each (\<lambda>(entity_type, pattern).
         and_then (re_findall lib pattern text) (\<lambda>matches.
           Inr (entity_type, take 10 (set_list lib matches))))
       entity_patterns"

definition amount_patterns :: "string list" where
  "amount_patterns =
    [(bs @ ''$['' @ bs @ ''d,]+(?:'' @ bs @ ''.'' @ bs @ ''d{2})?''),
     (bs @ ''b'' @ bs @ ''d+(?:,'' @ bs @ ''d{3})*(?:'' @ bs @ ''.'' @ bs @ ''d{2})?'' @ bs
      @ ''s*dollars?''),
     (bs @ ''b'' @ bs @ ''d+(?:,'' @ bs @ ''d{3})*'' @ bs @ ''s*USD'')]"

definition payment_patterns :: "string list" where
  "payment_patterns =
    [(''(?:within|due'' @ bs @ ''s+in|payable'' @ bs @ ''s+in|paid'' @ bs @ ''s+within)'' @ bs
      @ ''s+('' @ bs @ ''d+)'' @ bs @ ''s*(?:days?|weeks?|months?)''),
     (''net'' @ bs @ ''s+('' @ bs @ ''d+)''),
     (''('' @ bs @ ''d+)'' @ bs @ ''s*(?:days?|weeks?|months?)'' @ bs
      @ ''s*(?:after|from|following)''),
     (''(?:monthly|quarterly|annually|weekly)'' @ bs @ ''s+payments?'')]"

definition interest_patterns :: "string list" where
  "interest_patterns =
    [(''('' @ bs @ ''d+(?:'' @ bs @ ''.'' @ bs @ ''d+)?)'' @ bs @ ''s*%'' @ bs
      @ ''s*(?:interest|rate|annual|per'' @ bs @ ''s+annum)''),
     (''interest.*?('' @ bs @ ''d+(?:'' @ bs @ ''.'' @ bs @ ''d+)?)'' @ bs
      @ ''s*(?:percent|%)'')]"

definition payment_method_patterns :: "string list" where
  "payment_method_patterns =
    [(bs @ ''b(?:wire transfer|check|cash|credit card|bank transfer|ACH|electronic transfer)''
      @ bs @ ''b'')]"

text \<open>
  Every pattern of the payment schedule has at most one group, so a match is a string, never
  a tuple, and \<^verbatim>\<open>str(match)\<close> is the match. The keys \<^verbatim>\<open>penalties\<close> and \<^verbatim>\<open>currencies\<close> are never
  filled.
\<close>

definition extract_financial_terms :: "library \<Rightarrow> string \<Rightarrow> exn + (string \<times> string list) list" where
  "extract_financial_terms lib text =
     and_then (for_each (\<lambda>pattern. re_findall lib pattern text) amount_patterns) (\<lambda>amounts.
     and_then (for_each (\<lambda>pattern. re_findall lib pattern text) payment_patterns) (\<lambda>schedule.
     and_then (for_each (\<lambda>pattern. re_findall lib pattern text) interest_patterns) (\<lambda>rates.
     and_then (for_each (\<lambda>pattern. re_findall lib pattern text) payment_method_patterns) (\<lambda>methods.
       Inr (map (\<lambda>(key, found). (key, take 10 (fromkeys found)))
              [(''amounts'', concat amounts),
               (''payment_schedule'', concat schedule),
               (''penalties'', []),
               (''interest_rates'', map (\<lambda>rate. rate @ ''%'') (concat rates)),
               (''currencies'', []),
               (''payment_methods'', concat methods)])))))"

definition date_patterns :: "(string \<times> string) list" where
  "date_patterns =
    [((''(?:effective|commence|start|begin|execution).*?('' @ bs @ ''w+'' @ bs @ ''s+'' @ bs
       @ ''d{1,2},?'' @ bs @ ''s+'' @ bs @ ''d{4})''), ''Contract Start''),
     ((''(?:expire|end|terminate|conclusion|completion).*?('' @ bs @ ''w+'' @ bs @ ''s+'' @ bs
       @ ''d{1,2},?'' @ bs @ ''s+'' @ bs @ ''d{4})''), ''Contract End''),
     ((''(?:due|payable|payment).*?('' @ bs @ ''w+'' @ bs @ ''s+'' @ bs @ ''d{1,2},?'' @ bs
       @ ''s+'' @ bs @ ''d{4})''), ''Payment Due''),
     ((''(?:delivery|deliver|provided).*?('' @ bs @ ''w+'' @ bs @ ''s+'' @ bs @ ''d{1,2},?''
       @ bs @ ''s+'' @ bs @ ''d{4})''), ''Delivery Date''),
     ((''(?:review|evaluation|assessment).*?('' @ bs @ ''w+'' @ bs @ ''s+'' @ bs @ ''d{1,2},?''
       @ bs @ ''s+'' @ bs @ ''d{4})''), ''Review Date'')]"

definition extract_timeline :: "library \<Rightarrow> string \<Rightarrow> exn + (string \<times> string) list list" where
  "extract_timeline lib text =
     and_then (for_each (\<lambda>(pattern, event_type).
                  and_then (re_findall lib pattern text) (\<lambda>matches.
                    Inr (map (\<lambda>match. [(''date'', match), (''event'', event_type),
                                          (''type'', ''milestone'')]) matches)))
                 date_patterns)
       (\<lambda>timeline. Inr (take 12 (concat timeline)))"

subsection \<open>\<^verbatim>\<open>generate_executive_summary\<close>\<close>

definition generate_executive_summary ::
  "library \<Rightarrow> string \<Rightarrow> (string \<times> string list) list \<Rightarrow> (string \<times> string list) list
     \<Rightarrow> risk_assessment \<Rightarrow> exn + string" where
  "generate_executive_summary lib text sections financial_terms risk =
     (let contract_type = determine_contract_type text
      in and_then (extract_main_subject lib text contract_type) (\<lambda>main_subject.
         let section_count = length (filter (\<lambda>(k, s). s \<noteq> []) sections);
             amount_count = length (dict_get financial_terms ''amounts'' []);
             parts1 = [''This is a '' @ contract_type @ '' focusing on '' @ main_subject @ ''.''];
             parts2 = (if 0 < amount_count
                       then parts1 @ [''The contract involves financial obligations including ''
                                      @ join '', '' (take 3 (dict_get financial_terms ''amounts'' []))
                                      @ ''.'']
                       else parts1);
             parts3 = parts2 @ [''Risk analysis indicates a '' @ risk_level risk
                                @ '' risk level with '' @ str_nat (length (reasons risk))
                                @ '' identified risk factors.''];
             parts4 = (if 0 < section_count
                       then parts3 @ [''The contract is structured into '' @ str_nat section_count
                                      @ '' main sections covering various legal and business aspects.'']
                       else parts3)
         in and_then (extract_timeline lib text) (\<lambda>timeline.
            let parts5 = (if timeline \<noteq> []
                          then parts4 @ [''Important dates include '' @ str_nat (length timeline)
                                         @ '' scheduled events or milestones.'']
                          else parts4)
            in Inr (join '' '' parts5))))"

subsection \<open>Questions: \<^verbatim>\<open>_extract_relevant_clauses\<close>, \<^verbatim>\<open>_generate_follow_up_questions\<close>\<close>

text \<open>
  \<^verbatim>\<open>len(set(a).intersection(set(b)))\<close> for two lists of words: the number of distinct words
  of \<open>a\<close> that are words of \<open>b\<close>.
\<close>

definition word_overlap :: "string list \<Rightarrow> string list \<Rightarrow> nat" where
  "word_overlap a b = length (filter (\<lambda>w. w \<in> set b) (remdups a))"

definition clip_clause :: "string \<Rightarrow> string" where
  "clip_clause clause = (if length clause > 250 then take 250 clause @ ''...'' else clause)"

text \<open>One round of the loop: the clauses a sentence adds, none or one.\<close>

definition clause_of :: "string list \<Rightarrow> string \<Rightarrow> string list" where
  "clause_of question_words sentence =
     (if strip sentence = [] \<or> length (strip sentence) < 30 then []
      else (let sentence_words = split_ws (lower sentence);
                overlap = word_overlap question_words sentence_words
            in if 2 \<le> overlap
               then (let clause = strip sentence
                     in if length clause > 50 then [clip_clause clause] else [])
               else []))"

definition extract_relevant_clauses :: "string \<Rightarrow> string \<Rightarrow> string list" where
  "extract_relevant_clauses context question =
     (let question_words = split_ws (lower question);
          sentences = split_sentences context
      in take 5 (concat (map (clause_of question_words) sentences)))"

definition base_questions :: "string list" where
  "base_questions =
    [''What are the key payment obligations?'',
     ''How can this contract be terminated?'',
     (''What happens if there'' @ [CHR 0x27] @ ''s a breach of contract?''),
     ''Are there any liability limitations?'',
     ''What are the warranty provisions?'',
     ''How are disputes resolved?'',
     ''What are the renewal terms?'',
     ''What are the confidentiality requirements?'',
     ''What intellectual property rights are involved?'',
     ''What are the performance standards?'']"

definition generate_follow_up_questions :: "string \<Rightarrow> string \<Rightarrow> string list" where
  "generate_follow_up_questions original_question context =
     (let original_words = split_ws (lower original_question)
      in take 6 (filter (\<lambda>q. word_overlap original_words (split_ws (lower q)) < 3) base_questions))"

subsection \<open>\<^verbatim>\<open>ask_keyword_question\<close> and \<^verbatim>\<open>ask_openai_question\<close>\<close>

text \<open>
  The answer is the dictionary \<^verbatim>\<open>{"answer", "relevant_clauses", "confidence",
  "follow_up_suggestions"}\<close>, a record here (\<^verbatim>\<open>QuestionResponse\<close> in \<^verbatim>\<open>models.py\<close>). The confidence
  is a float literal, 0.7 or 0.9, never computed with: it is the decimal number written.
\<close>

record qa_result =
  answer :: string
  relevant_clauses :: "string list"
  confidence :: rat
  follow_up_suggestions :: "string list"

text \<open>
  The lines of the context, split at line feeds, that hold one of the words, stripped; and
  the answer of a topic: the heading and the first three such lines, or the sentence that
  says there is none.
\<close>

definition topic_lines :: "string list \<Rightarrow> string \<Rightarrow> string list" where
  "topic_lines words context =
     map strip (filter (\<lambda>section. any_in words (lower section)) (split_on (CHR 0x0A) context))"

definition topic_answer :: "string \<Rightarrow> string \<Rightarrow> string list \<Rightarrow> string" where
  "topic_answer heading none info =
     (if info \<noteq> [] then heading @ join [CHR 0x0A, CHR 0x0A] (take 3 info) else none)"

text \<open>
  The last branch: the sentences, split at full stops, of at least 20 characters that share
  two words or more with the question, sorted by the number of shared words, largest first;
  \<^verbatim>\<open>list.sort\<close> is stable, also with \<^verbatim>\<open>reverse=True\<close>.
\<close>

definition relevant_sentences :: "string \<Rightarrow> string \<Rightarrow> (nat \<times> string) list" where
  "relevant_sentences question_lower context =
     (let question_words = split_ws question_lower
      in sort_key (\<lambda>x. - int (fst x))
           (filter (\<lambda>x. 2 \<le> fst x)
              (map (\<lambda>sentence. (word_overlap question_words (split_ws (lower sentence)), strip sentence))
                 (filter (\<lambda>sentence. \<not> length (strip sentence) < 20) (split_on (CHR ''.'') context)))))"

definition keyword_answer :: "string \<Rightarrow> string \<Rightarrow> string" where
  "keyword_answer question context =
     (let question_lower = lower question
      in if any_in [''payment'', ''pay'', ''cost'', ''fee'', ''money'', ''amount''] question_lower
         then topic_answer
                (''Based on the contract, here are the payment-related terms:'' @ [CHR 0x0A, CHR 0x0A])
                ''No specific payment terms found in this contract.''
                (topic_lines [''payment'', ''pay'', ''fee'', ''cost'', ''$'', ''amount''] context)
         else if any_in [''terminate'', ''end'', ''cancel'', ''termination''] question_lower
         then topic_answer
                (''Regarding termination, the contract states:'' @ [CHR 0x0A, CHR 0x0A])
                ''No specific termination clauses found in this contract.''
                (topic_lines [''terminate'', ''termination'', ''end'', ''cancel'', ''expire''] context)
         else if any_in [''risk'', ''liability'', ''damage'', ''harm''] question_lower
         then topic_answer
                (''Regarding risks and liability:'' @ [CHR 0x0A, CHR 0x0A])
                ''No specific liability or risk clauses found.''
                (topic_lines [''liability'', ''damage'', ''risk'', ''harm'', ''loss'', ''indemnify''] context)
         else if any_in [''obligation'', ''duty'', ''must'', ''shall'', ''required''] question_lower
         then topic_answer
                (''The contract establishes these obligations:'' @ [CHR 0x0A, CHR 0x0A])
                ''No specific obligations found.''
                (topic_lines [''shall'', ''must'', ''obligation'', ''duty'', ''required'', ''responsible'']
                   context)
         else (let relevant = relevant_sentences question_lower context
               in if relevant \<noteq> []
                  then ''Based on your question, here are the most relevant parts of the contract:''
                       @ [CHR 0x0A, CHR 0x0A]
                       @ join [CHR 0x0A, CHR 0x0A] (map snd (take 3 relevant))
                  else ''I couldn'' @ [CHR 0x27] @ ''t find specific information related to your ''
                       @ ''question in this contract. Please try asking about payment terms, ''
                       @ ''termination conditions, obligations, or liability provisions.''))"

definition ask_keyword_question :: "string \<Rightarrow> string \<Rightarrow> qa_result" where
  "ask_keyword_question question context =
     \<lparr>answer = keyword_answer question context,
      relevant_clauses = extract_relevant_clauses context question,
      confidence = 7 / 10,
      follow_up_suggestions =
        [''What are the payment terms?'',
         ''How can this contract be terminated?'',
         ''What are the main obligations?'',
         ''What are the liability provisions?'']\<rparr>"

text \<open>
  The prompt of the f-string; the apostrophe of "user's" is the character U+2019 in the
  source, its three UTF-8 bytes here.
\<close>

definition prompt :: "string \<Rightarrow> string \<Rightarrow> string" where
  "prompt question context =
     ''You are a legal analyst. Provide a **concise** answer (max 3 sentences) to the user''
     @ [CHR 0xE2, CHR 0x80, CHR 0x99]
     @ ''s question based solely on the contract excerpt below.'' @ [CHR 0x0A, CHR 0x0A]
     @ ''CONTRACT CONTEXT:'' @ [CHR 0x0A]
     @ take 2000 context @ ''  # shorter context for brevity'' @ [CHR 0x0A, CHR 0x0A]
     @ ''USER QUESTION: '' @ question @ [CHR 0x0A, CHR 0x0A]
     @ ''Answer concisely:''"

text \<open>
  The client \<^verbatim>\<open>self.gemini_model\<close> is \<open>None\<close> when it was not configured; else it is the call
  \<^verbatim>\<open>generate_content(prompt, generation_config=...).text\<close>, which returns the text of the
  response or raises. Everything else in the \<^verbatim>\<open>try\<close> block cannot raise.
\<close>

definition ask_openai_question ::
  "(string \<Rightarrow> exn + string) option \<Rightarrow> string \<Rightarrow> string \<Rightarrow> qa_result" where
  "ask_openai_question gemini_model question context =
     (case gemini_model of
        None \<Rightarrow> ask_keyword_question question context
      | Some generate_content \<Rightarrow>
          (case generate_content (prompt question context) of
             Inr response_text \<Rightarrow>
               \<lparr>answer = strip response_text,
                relevant_clauses = extract_relevant_clauses context question,
                confidence = 9 / 10,
                follow_up_suggestions = generate_follow_up_questions question context\<rparr>
           | Inl e \<Rightarrow> ask_keyword_question question context))"

subsection \<open>\<^verbatim>\<open>process_contract\<close>\<close>

definition py_risk :: "risk_assessment \<Rightarrow> pyval" where
  "py_risk risk =
     PDict [(''risk_level'', PStr (risk_level risk)),
            (''risk_score'', PInt (risk_score risk)),
            (''reasons'', py_strs (reasons risk)),
            (''detailed_analysis'', PList (map py_str_dict (detailed_analysis risk)))]"

text \<open>The statements of the \<^verbatim>\<open>try\<close> block, in their order; \<open>Inl e\<close> when one of them raises.\<close>

definition process_steps :: "library \<Rightarrow> string \<Rightarrow> exn + pyval" where
  "process_steps lib text =
     (let sections = identify_contract_sections text
      in and_then (extract_key_entities lib text) (\<lambda>entities.
         and_then (extract_financial_terms lib text) (\<lambda>financial_terms.
         and_then (extract_timeline lib text) (\<lambda>timeline.
         let risk = assess_contract_risks text;
             simplified_text = simplify_legal_language text;
             key_terms = extract_legal_terms_from_text text;
             obligations = extract_precise_obligations text;
             contract_type = determine_contract_type text
         in and_then (extract_main_subject lib text contract_type) (\<lambda>main_subject.
            and_then (generate_executive_summary lib text sections financial_terms risk)
              (\<lambda>executive_summary.
            and_then (getitem obligations ''all_obligations'') (\<lambda>all_obligations.
            and_then (getitem financial_terms ''amounts'') (\<lambda>amounts.
              Inr (PDict
                [(''processing_status'', PStr ''success''),
                 (''detailed_summary'', PDict
                    [(''executive_summary'', PStr executive_summary),
                     (''key_points'', py_strs
                        [''Contract type: '' @ contract_type,
                         ''Main subject: '' @ main_subject,
                         ''Risk level: '' @ risk_level risk,
                         ''Total obligations: '' @ str_nat (length all_obligations),
                         ''Financial terms: '' @ str_nat (length amounts) @ '' amounts identified'']),
                     (''financial_terms'', py_list_dict financial_terms),
                     (''timeline'', PList (map py_str_dict timeline)),
                     (''contract_type'', PStr contract_type),
                     (''main_subject'', PStr main_subject)]),
                 (''key_terms'', PList (map py_str_dict key_terms)),
                 (''obligations'', py_list_dict obligations),
                 (''risk_assessment'', py_risk risk),
                 (''sections'', py_list_dict sections),
                 (''entities'', py_list_dict entities),
                 (''simplified_text'', PStr simplified_text)])))))))))"

text \<open>\<^verbatim>\<open>except Exception as e\<close>: the failed result, with the text of the exception.\<close>

definition process_contract :: "library \<Rightarrow> string \<Rightarrow> pyval" where
  "process_contract lib text =
     (case process_steps lib text of
        Inr response \<Rightarrow> response
      | Inl (Exception e) \<Rightarrow>
          PDict [(''processing_status'', PStr ''failed''),
                 (''error'', PStr (''Contract processing failed: '' @ e))])"

text \<open>
  A result without its \<^verbatim>\<open>entities\<close> field, to compare two results in all the other
  fields.
\<close>

definition without_entities :: "pyval \<Rightarrow> pyval" where
  "without_entities v =
     (case v of PDict d \<Rightarrow> PDict (filter (\<lambda>(k, x). k \<noteq> ''entities'') d) | _ \<Rightarrow> v)"

section \<open>Properties\<close>

subsection \<open>Literal substitution\<close>

lemma contains_ci_append:
  "t \<noteq> [] \<Longrightarrow> contains_ci t (r @ x) = (contains_start t r x \<or> contains_ci t x)"
  by (induction r) auto

lemma prefix_ci_append:
  "prefix_ci (a @ b) s = (prefix_ci a s \<and> prefix_ci b (drop (length a) s))"
  by (induction a s rule: prefix_ci.induct) auto

lemma contains_ci_drop: "contains_ci t (drop n s) \<Longrightarrow> contains_ci t s"
proof (induction s arbitrary: n)
  case Nil
  then show ?case by simp
next
  case (Cons c cs)
  show ?case
  proof (cases n)
    case 0
    with Cons.prems show ?thesis by simp
  next
    case (Suc m)
    with Cons.prems have "contains_ci t (drop m cs)" by simp
    then have "contains_ci t cs" by (rule Cons.IH)
    then show ?thesis by simp
  qed
qed

lemma contains_ci_prefix_drop:
  assumes "prefix_ci t (drop n s)" and "t \<noteq> []"
  shows "contains_ci t s"
proof -
  from assms have "drop n s \<noteq> []" by (cases t) auto
  then obtain c cs where "drop n s = c # cs" by (cases "drop n s") auto
  with assms(1) have "contains_ci t (drop n s)" by simp
  then show ?thesis by (rule contains_ci_drop)
qed

text \<open>
  A prefix of the output in which the first character of the replacement does not occur
  was a prefix of the input: the scan copied it.
\<close>

lemma prefix_ci_sub_transfer:
  assumes "r \<noteq> []" and "\<forall>x\<in>set q. lower_char x \<noteq> lower_char (hd r)"
    and "prefix_ci q (sub_ci (p # ps) r s)"
  shows "prefix_ci q s"
  using assms
proof (induction q arbitrary: s)
  case Nil
  then show ?case by simp
next
  case (Cons x q)
  show ?case
  proof (cases s)
    case Nil
    with Cons.prems show ?thesis by simp
  next
    case (Cons c cs)
    show ?thesis
    proof (cases "prefix_ci (p # ps) (c # cs)")
      case True
      with Cons Cons.prems(3)
      have "prefix_ci (x # q) (r @ sub_ci (p # ps) r (drop (length ps) cs))"
        by simp
      with Cons.prems(1,2) show ?thesis by (cases r) auto
    next
      case False
      with Cons Cons.prems(3)
      have "lower_char x = lower_char c" and "prefix_ci q (sub_ci (p # ps) r cs)"
        by auto
      with Cons.IH[of cs] Cons.prems(1,2) Cons show ?thesis by auto
    qed
  qed
qed

text \<open>
  When does the output of a substitution hold no match of \<open>t\<close>? When \<open>t\<close> is the pattern
  itself or has no match in the input, no match of \<open>t\<close> can start inside a replacement, and
  no match can run from copied text into a replacement.
\<close>

lemma no_new_occurrence:
  assumes r: "r \<noteq> []" and t: "t \<noteq> []"
    and tl: "\<forall>x\<in>set (tl t). lower_char x \<noteq> lower_char (hd r)"
    and inside: "\<And>x. \<not> contains_start t r x"
    and orig: "t = p # ps \<or> \<not> contains_ci t s"
  shows "\<not> contains_ci t (sub_ci (p # ps) r s)"
  using orig
proof (induction s rule: length_induct)
  case (1 s)
  show ?case
  proof (cases s)
    case Nil
    with t show ?thesis by simp
  next
    case (Cons c cs)
    show ?thesis
    proof (cases "prefix_ci (p # ps) (c # cs)")
      case True
      let ?s' = "drop (length ps) cs"
      have "t = p # ps \<or> \<not> contains_ci t ?s'"
        using 1(2) Cons contains_ci_drop[of t "length ps" cs] by auto
      moreover have "length ?s' < length s" using Cons by simp
      ultimately have "\<not> contains_ci t (sub_ci (p # ps) r ?s')" using 1(1) by blast
      with True Cons inside t show ?thesis by (simp add: contains_ci_append)
    next
      case False
      have "t = p # ps \<or> \<not> contains_ci t cs" using 1(2) Cons by auto
      moreover have "length cs < length s" using Cons by simp
      ultimately have ih: "\<not> contains_ci t (sub_ci (p # ps) r cs)" using 1(1) by blast
      have "\<not> prefix_ci t (c # sub_ci (p # ps) r cs)"
      proof
        assume a: "prefix_ci t (c # sub_ci (p # ps) r cs)"
        from t obtain y ys where tt: "t = y # ys" by (cases t) auto
        with a have "lower_char y = lower_char c" and "prefix_ci ys (sub_ci (p # ps) r cs)"
          by auto
        moreover from tl tt have "\<forall>x\<in>set ys. lower_char x \<noteq> lower_char (hd r)" by simp
        ultimately have "prefix_ci t (c # cs)"
          using prefix_ci_sub_transfer[OF r, of ys p ps cs] tt by simp
        with False 1(2) Cons show False by auto
      qed
      with ih False Cons show ?thesis by auto
    qed
  qed
qed

lemma sub_ci_id: "\<not> contains_ci (p # ps) s \<Longrightarrow> sub_ci (p # ps) r s = s"
  by (induction s) auto

lemma contains_ci_longer:
  assumes "contains_ci (a @ b) s" and "a \<noteq> []"
  shows "contains_ci a s"
  using assms by (induction s) (auto simp: prefix_ci_append)

subsection \<open>The word "shall" does not survive the simplifier\<close>

lemma shall_rule_removes_shall: "\<not> contains_ci ''shall'' (sub_ci ''shall'' ''must'' s)"
  by (rule no_new_occurrence) simp_all

lemma shall_not_rule_idle:
  assumes "\<not> contains_ci ''shall'' s"
  shows "sub_ci ''shall not'' ''must not'' s = s"
proof -
  have "\<not> contains_ci (''shall'' @ '' not'') s"
    using assms contains_ci_longer[of "''shall''" "'' not''" s] by blast
  then show ?thesis by (simp add: sub_ci_id)
qed

lemma simplify_last_rules:
  "simplify_legal_language text =
     sub_ci ''shall not'' ''must not''
       (sub_ci ''shall'' ''must'' (foldl simplify_step text (take 23 simplifications)))"
  by (simp add: simplify_legal_language_def simplifications_def simplify_step_def)

text \<open>
  C10. For every input text, the output of \<open>simplify_legal_language\<close> holds no occurrence
  of "shall", letters compared without case: the rule "shall" to "must" leaves none, whatever
  the rules before it produced, and the last rule, "shall not" to "must not", then finds
  nothing to replace.
\<close>

theorem simplify_output_has_no_shall:
  "\<not> contains_ci ''shall'' (simplify_legal_language text)
   \<and> simplify_legal_language text
       = sub_ci ''shall'' ''must'' (foldl simplify_step text (take 23 simplifications))"
proof -
  let ?r = "sub_ci ''shall'' ''must'' (foldl simplify_step text (take 23 simplifications))"
  have clean: "\<not> contains_ci ''shall'' ?r" by (rule shall_rule_removes_shall)
  then have "sub_ci ''shall not'' ''must not'' ?r = ?r" by (rule shall_not_rule_idle)
  then have "simplify_legal_language text = ?r" by (simp add: simplify_last_rules)
  with clean show ?thesis by simp
qed

theorem simplify_output_has_no_shall_witness:
  "\<not> contains_ci ''shall'' (simplify_legal_language ''Tenant SHALL not assign; whereas marshalls Shall'')
   \<and> simplify_legal_language ''Tenant SHALL not assign; whereas marshalls Shall''
       = ''Tenant must not transfer; since marmusts must''"
proof -
  have e: "simplify_legal_language ''Tenant SHALL not assign; whereas marshalls Shall''
        = ''Tenant must not transfer; since marmusts must''"
    by code_simp
  have n: "\<not> contains_ci ''shall''
             (simplify_legal_language ''Tenant SHALL not assign; whereas marshalls Shall'')"
    using simplify_output_has_no_shall[of "''Tenant SHALL not assign; whereas marshalls Shall''"]
    by (rule conjunct1)
  from n e show ?thesis by (rule conjI)
qed

subsection \<open>Running the simplifier twice\<close>

text \<open>
  A prefix of the output is a prefix of the input, or it runs from copied text into a
  replacement: a part of it is copied, the pattern follows in the input, and the rest
  starts the replacement.
\<close>

lemma prefix_ci_sub_split:
  assumes "r \<noteq> []" and "prefix_ci q (sub_ci (p # ps) r s)"
  shows "prefix_ci q s \<or>
         (\<exists>k<length q. prefix_ci (take k q) s \<and> prefix_ci (p # ps) (drop k s)
                         \<and> (\<exists>x. prefix_ci (drop k q) (r @ x)))"
  using assms(2)
proof (induction q arbitrary: s)
  case Nil
  then show ?case by simp
next
  case (Cons y q)
  show ?case
  proof (cases s)
    case Nil
    with Cons.prems show ?thesis by simp
  next
    case (Cons c cs)
    show ?thesis
    proof (cases "prefix_ci (p # ps) (c # cs)")
      case True
      with Cons Cons.prems
      have "prefix_ci (y # q) (r @ sub_ci (p # ps) r (drop (length ps) cs))" by simp
      then have "\<exists>x. prefix_ci (drop 0 (y # q)) (r @ x)" by auto
      with True Cons have "0 < length (y # q) \<and> prefix_ci (take 0 (y # q)) s
          \<and> prefix_ci (p # ps) (drop 0 s) \<and> (\<exists>x. prefix_ci (drop 0 (y # q)) (r @ x))"
        by simp
      then show ?thesis by blast
    next
      case False
      with Cons Cons.prems
      have y: "lower_char y = lower_char c" and rest: "prefix_ci q (sub_ci (p # ps) r cs)"
        by auto
      from Cons.IH[OF rest] show ?thesis
      proof
        assume "prefix_ci q cs"
        with y Cons show ?thesis by simp
      next
        assume "\<exists>k<length q. prefix_ci (take k q) cs \<and> prefix_ci (p # ps) (drop k cs)
                  \<and> (\<exists>x. prefix_ci (drop k q) (r @ x))"
        then obtain k where k: "k < length q" "prefix_ci (take k q) cs"
          "prefix_ci (p # ps) (drop k cs)" "\<exists>x. prefix_ci (drop k q) (r @ x)" by blast
        with y Cons have "Suc k < length (y # q) \<and> prefix_ci (take (Suc k) (y # q)) s
           \<and> prefix_ci (p # ps) (drop (Suc k) s) \<and> (\<exists>x. prefix_ci (drop (Suc k) (y # q)) (r @ x))"
          by simp
        then show ?thesis by blast
      qed
    qed
  qed
qed

lemma contains_ci_suffix:
  assumes "contains_ci (a @ b) s" and "b \<noteq> []"
  shows "contains_ci b s"
proof -
  from assms(1) obtain n where "prefix_ci (a @ b) (drop n s)"
  proof (induction s arbitrary: thesis)
    case Nil
    then show ?case using assms(2) by simp
  next
    case (Cons c cs)
    from Cons.prems(2) consider "prefix_ci (a @ b) (c # cs)" | "contains_ci (a @ b) cs" by auto
    then show ?case
    proof cases
      case 1
      then have "prefix_ci (a @ b) (drop 0 (c # cs))" by simp
      then show ?thesis by (rule Cons.prems(1))
    next
      case 2
      then obtain n where "prefix_ci (a @ b) (drop n cs)" using Cons.IH by blast
      then have "prefix_ci (a @ b) (drop (Suc n) (c # cs))" by simp
      then show ?thesis by (rule Cons.prems(1))
    qed
  qed
  then have "prefix_ci b (drop (length a) (drop n s))" by (simp add: prefix_ci_append)
  then have "prefix_ci b (drop (length a + n) s)" by simp
  then show ?thesis using assms(2) by (rule contains_ci_prefix_drop)
qed

text \<open>
  The output of a substitution holds no match of \<open>t\<close> when: \<open>t\<close> is the pattern or has no
  match in the input; a match of \<open>t\<close> that starts inside a replacement goes on with \<open>u\<close>,
  and the input has neither the pattern followed by \<open>u\<close> nor the pattern followed by a part
  of \<open>u\<close> and the pattern again; and the input has no part of \<open>t\<close> followed by the pattern
  where the rest of \<open>t\<close> could start the replacement.
\<close>

lemma no_new_occurrence_splice:
  assumes r: "r \<noteq> []" and t: "t \<noteq> []"
    and inside: "\<And>x. contains_start t r x \<Longrightarrow> prefix_ci u x"
    and after: "(\<forall>x. \<not> contains_start t r x) \<or>
                (\<not> contains_ci ((p # ps) @ u) s \<and>
                 (\<forall>k<length u. (\<exists>x. prefix_ci (drop k u) (r @ x))
                    \<longrightarrow> \<not> contains_ci ((p # ps) @ take k u @ (p # ps)) s))"
    and before: "\<forall>k<length (tl t). (\<exists>x. prefix_ci (drop k (tl t)) (r @ x))
                   \<longrightarrow> \<not> contains_ci (take (Suc k) t @ (p # ps)) s"
    and orig: "t = p # ps \<or> \<not> contains_ci t s"
  shows "\<not> contains_ci t (sub_ci (p # ps) r s)"
  using after before orig
proof (induction s rule: length_induct)
  case (1 s)
  note after = 1(2) and before = 1(3) and orig = 1(4)
  show ?case
  proof (cases s)
    case Nil
    with t show ?thesis by simp
  next
    case (Cons c cs)
    show ?thesis
    proof (cases "prefix_ci (p # ps) (c # cs)")
      case True
      let ?s' = "drop (length ps) cs"
      have s': "?s' = drop (length (p # ps)) s" using Cons by simp
      have down: "\<not> contains_ci v s \<Longrightarrow> \<not> contains_ci v ?s'" for v
        using contains_ci_drop[of v "length (p # ps)" s] s' by auto
      have "length ?s' < length s" using Cons by simp
      moreover have "(\<forall>x. \<not> contains_start t r x) \<or>
                (\<not> contains_ci ((p # ps) @ u) ?s' \<and>
                 (\<forall>k<length u. (\<exists>x. prefix_ci (drop k u) (r @ x))
                    \<longrightarrow> \<not> contains_ci ((p # ps) @ take k u @ (p # ps)) ?s'))"
        using after down by blast
      moreover have "\<forall>k<length (tl t). (\<exists>x. prefix_ci (drop k (tl t)) (r @ x))
                   \<longrightarrow> \<not> contains_ci (take (Suc k) t @ (p # ps)) ?s'"
        using before down by blast
      moreover have "t = p # ps \<or> \<not> contains_ci t ?s'"
        using orig down by blast
      ultimately have ih: "\<not> contains_ci t (sub_ci (p # ps) r ?s')" using 1(1) by blast
      have "\<not> contains_start t r (sub_ci (p # ps) r ?s')"
      proof
        assume a: "contains_start t r (sub_ci (p # ps) r ?s')"
        then have u: "prefix_ci u (sub_ci (p # ps) r ?s')" by (rule inside)
        from after a have no1: "\<not> contains_ci ((p # ps) @ u) s"
          and no2: "\<forall>k<length u. (\<exists>x. prefix_ci (drop k u) (r @ x))
                    \<longrightarrow> \<not> contains_ci ((p # ps) @ take k u @ (p # ps)) s"
          by blast+
        from prefix_ci_sub_split[OF r u] show False
        proof
          assume "prefix_ci u ?s'"
          with True Cons have "prefix_ci ((p # ps) @ u) s" by (simp add: prefix_ci_append)
          then have "contains_ci ((p # ps) @ u) s" using Cons by simp
          with no1 show False by blast
        next
          assume "\<exists>k<length u. prefix_ci (take k u) ?s' \<and> prefix_ci (p # ps) (drop k ?s')
                    \<and> (\<exists>x. prefix_ci (drop k u) (r @ x))"
          then obtain k where k: "k < length u" "prefix_ci (take k u) ?s'"
            "prefix_ci (p # ps) (drop k ?s')" "\<exists>x. prefix_ci (drop k u) (r @ x)" by blast
          have "length (take k u) = k" using k(1) by simp
          with k(2,3) have "prefix_ci (take k u @ (p # ps)) ?s'" by (simp add: prefix_ci_append)
          with True Cons have "prefix_ci ((p # ps) @ take k u @ (p # ps)) s"
            by (simp add: prefix_ci_append)
          then have "contains_ci ((p # ps) @ take k u @ (p # ps)) s" using Cons by simp
          with no2 k(1,4) show False by blast
        qed
      qed
      with ih True Cons t show ?thesis by (simp add: contains_ci_append)
    next
      case False
      have "length cs < length s" using Cons by simp
      moreover have "(\<forall>x. \<not> contains_start t r x) \<or>
                (\<not> contains_ci ((p # ps) @ u) cs \<and>
                 (\<forall>k<length u. (\<exists>x. prefix_ci (drop k u) (r @ x))
                    \<longrightarrow> \<not> contains_ci ((p # ps) @ take k u @ (p # ps)) cs))"
        using after Cons by auto
      moreover have "\<forall>k<length (tl t). (\<exists>x. prefix_ci (drop k (tl t)) (r @ x))
                   \<longrightarrow> \<not> contains_ci (take (Suc k) t @ (p # ps)) cs"
        using before Cons by auto
      moreover have "t = p # ps \<or> \<not> contains_ci t cs" using orig Cons by auto
      ultimately have ih: "\<not> contains_ci t (sub_ci (p # ps) r cs)" using 1(1) by blast
      have "\<not> prefix_ci t (c # sub_ci (p # ps) r cs)"
      proof
        assume a: "prefix_ci t (c # sub_ci (p # ps) r cs)"
        from t obtain y ys where tt: "t = y # ys" by (cases t) auto
        with a have y: "lower_char y = lower_char c" and ys: "prefix_ci ys (sub_ci (p # ps) r cs)"
          by auto
        from prefix_ci_sub_split[OF r ys] show False
        proof
          assume "prefix_ci ys cs"
          with y tt have "prefix_ci t (c # cs)" by simp
          with False orig Cons show False by auto
        next
          assume "\<exists>k<length ys. prefix_ci (take k ys) cs \<and> prefix_ci (p # ps) (drop k cs)
                    \<and> (\<exists>x. prefix_ci (drop k ys) (r @ x))"
          then obtain k where k: "k < length ys" "prefix_ci (take k ys) cs"
            "prefix_ci (p # ps) (drop k cs)" "\<exists>x. prefix_ci (drop k ys) (r @ x)" by blast
          have "length (take k ys) = k" using k(1) by simp
          with k y tt have "prefix_ci (take (Suc k) t @ (p # ps)) (c # cs)"
            by (simp add: prefix_ci_append)
          then have "contains_ci (take (Suc k) t @ (p # ps)) s" using Cons by simp
          with before k(1,4) tt show False by auto
        qed
      qed
      with ih False Cons show ?thesis by auto
    qed
  qed
qed


text \<open>The first pass over a text with no other phrase of the table than "hereby".\<close>

lemma hereby_pass_clean:
  assumes only: "only_hereby_triggers text"
    and hh: "\<not> contains_ci ''herehereby'' text"
    and p: "p \<in> set triggers" and pt: "p \<noteq> ''thereof''"
  shows "\<not> contains_ci p (sub_ci ''hereby'' ''by this document'' text)"
proof (cases "p = ''hereby''")
  case True
  have "\<not> contains_ci ''hereby'' (sub_ci ''hereby'' ''by this document'' text)"
    using hh by (intro no_new_occurrence_splice[where u = "[]"]) (simp_all add: All_less_Suc)
  with True show ?thesis by simp
next
  case False
  from p have "p \<in> set (map fst simplifications)" by (simp add: triggers_def)
  moreover from only have "\<forall>q\<in>set (map fst simplifications). q = ''hereby'' \<or> \<not> contains_ci q text"
    by (simp add: only_hereby_triggers_def triggers_def list_all_iff)
  ultimately have o: "\<not> contains_ci p text" using False by blast
  from p pt False have "p \<in> set (remove1 ''thereof'' (remove1 ''hereby'' triggers))"
    by (simp add: triggers_def simplifications_def)
  then show ?thesis using o
    by (simp add: triggers_def simplifications_def) (elim disjE; simp; rule no_new_occurrence; simp)
qed

text \<open>
  After the first pass "thereof" can occur, where "hereby" stood before "hereof"; the
  character before it is then the "n" of "by this document".
\<close>

lemma hereby_pass_thereof:
  assumes only: "only_hereby_triggers text"
  shows "\<not> contains_ci ''ethereof'' (sub_ci ''hereby'' ''by this document'' text)"
    and "\<not> contains_ci ''tthereof'' (sub_ci ''hereby'' ''by this document'' text)"
    and "\<not> contains_ci '' thereof'' (sub_ci ''hereby'' ''by this document'' text)"
    and "\<not> contains_ci ''herebyhereofhereof'' text \<Longrightarrow>
         \<not> contains_ci ''thereofhereof'' (sub_ci ''hereby'' ''by this document'' text)"
proof -
  from only have o: "\<not> contains_ci ''thereof'' text"
    by (simp add: only_hereby_triggers_def triggers_def simplifications_def)
  have longer: "\<not> contains_ci (a @ ''thereof'' @ b) text" for a b
  proof
    assume "contains_ci (a @ ''thereof'' @ b) text"
    then have "contains_ci (''thereof'' @ b) text" by (rule contains_ci_suffix) simp
    then have "contains_ci ''thereof'' text" by (rule contains_ci_longer) simp
    with o show False by blast
  qed
  from longer[of "''e''" "[]"] have e: "\<not> contains_ci ''ethereof'' text" by simp
  from longer[of "''t''" "[]"] have t: "\<not> contains_ci ''tthereof'' text" by simp
  from longer[of "'' ''" "[]"] have sp: "\<not> contains_ci '' thereof'' text" by simp
  from longer[of "[]" "''hereof''"] have th: "\<not> contains_ci ''thereofhereof'' text" by simp
  from longer[of "''hereby''" "[]"] have ht: "\<not> contains_ci ''herebythereof'' text" by simp
  show "\<not> contains_ci ''ethereof'' (sub_ci ''hereby'' ''by this document'' text)"
    using e by (intro no_new_occurrence_splice[where u = "[]"]) (simp_all add: All_less_Suc)
  show "\<not> contains_ci ''tthereof'' (sub_ci ''hereby'' ''by this document'' text)"
    using t ht by (intro no_new_occurrence_splice[where u = "''thereof''"]) (simp_all add: All_less_Suc)
  show "\<not> contains_ci '' thereof'' (sub_ci ''hereby'' ''by this document'' text)"
    using sp by (intro no_new_occurrence_splice[where u = "[]"]) (simp_all add: All_less_Suc)
  show "\<not> contains_ci ''thereofhereof'' (sub_ci ''hereby'' ''by this document'' text)"
    if "\<not> contains_ci ''herebyhereofhereof'' text"
    using th that
    by (intro no_new_occurrence_splice[where u = "''hereofhereof''"]) (simp_all add: All_less_Suc)
qed


text \<open>The rule for "thereof", run on the output of the rule for "hereby".\<close>

lemma thereof_pass_clean:
  assumes only: "only_hereby_triggers text"
    and hh: "\<not> contains_ci ''herehereby'' text"
    and hoo: "\<not> contains_ci ''herebyhereofhereof'' text"
    and p: "p \<in> set triggers"
  shows "\<not> contains_ci p
           (sub_ci ''thereof'' ''of that'' (sub_ci ''hereby'' ''by this document'' text))"
proof -
  let ?t = "sub_ci ''hereby'' ''by this document'' text"
  note b = hereby_pass_thereof[OF only]
  have e: "\<not> contains_ci (a @ ''ethereof'') ?t" for a
    using b(1) contains_ci_suffix[of a "''ethereof''" ?t] by auto
  have t: "\<not> contains_ci (a @ ''tthereof'') ?t" for a
    using b(2) contains_ci_suffix[of a "''tthereof''" ?t] by auto
  have sp: "\<not> contains_ci (a @ '' thereof'') ?t" for a
    using b(3) contains_ci_suffix[of a "'' thereof''" ?t] by auto
  from b(4)[OF hoo] have th: "\<not> contains_ci ''thereofhereof'' ?t" .
  from e[of "''thereofher''"] have e1: "\<not> contains_ci ''thereofherethereof'' ?t" by simp
  from e[of "''ther''"] have e2: "\<not> contains_ci ''therethereof'' ?t" by simp
  from t[of "''pursuant ''"] have t1: "\<not> contains_ci ''pursuant tthereof'' ?t" by simp
  from sp[of "''in consideration''"] have s1: "\<not> contains_ci ''in consideration thereof'' ?t"
    by simp
  show ?thesis
  proof (cases "p = ''thereof''")
    case True
    have "\<not> contains_ci ''thereof'' (sub_ci ''thereof'' ''of that'' ?t)"
      using th e1 e2
      by (intro no_new_occurrence_splice[where u = "''hereof''"]) (simp_all add: All_less_Suc)
    with True show ?thesis by simp
  next
    case False
    with hereby_pass_clean[OF only hh p] have o: "\<not> contains_ci p ?t" by blast
    from p False have "p \<in> set (remove1 ''thereof'' triggers)"
      by (simp add: triggers_def simplifications_def)
    then show ?thesis using o t1 s1
      by (simp add: triggers_def simplifications_def)
         (elim disjE; simp; rule no_new_occurrence_splice[where u = "[]"]; simp add: All_less_Suc)
  qed
qed


lemma foldl_simplify_idle:
  "list_all (\<lambda>rule. fst rule \<noteq> [] \<and> \<not> contains_ci (fst rule) s) rules
   \<Longrightarrow> foldl simplify_step s rules = s"
proof (induction rules)
  case Nil
  then show ?case by simp
next
  case (Cons rule rules)
  then obtain p ps where "fst rule = p # ps" by (cases "fst rule") auto
  with Cons.prems have "simplify_step s rule = s" by (simp add: simplify_step_def sub_ci_id)
  with Cons show ?case by simp
qed

lemma triggers_nonempty: "list_all (\<lambda>rule. fst rule \<noteq> []) simplifications"
  by (simp add: simplifications_def)

lemma foldl_simplify_clean:
  assumes "\<forall>p\<in>set triggers. \<not> contains_ci p s" and "set rules \<subseteq> set simplifications"
  shows "foldl simplify_step s rules = s"
proof (rule foldl_simplify_idle)
  show "list_all (\<lambda>rule. fst rule \<noteq> [] \<and> \<not> contains_ci (fst rule) s) rules"
    unfolding list_all_iff
  proof
    fix rule assume "rule \<in> set rules"
    with assms(2) have m: "rule \<in> set simplifications" by blast
    with triggers_nonempty have "fst rule \<noteq> []" by (simp add: list_all_iff)
    moreover from m assms(1) have "\<not> contains_ci (fst rule) s" by (simp add: triggers_def)
    ultimately show "fst rule \<noteq> [] \<and> \<not> contains_ci (fst rule) s" by simp
  qed
qed

text \<open>
  C9, as the code has it. A text in which "hereby" is the only phrase of the table that
  occurs, no "hereby" directly follows "here", and no "hereby" is directly followed by
  "hereof" twice (letters compared without case): the first pass replaces every "hereby"
  by "by this document", then every "thereof" that this made, where "hereby" stood before
  "hereof", by "of that", and nothing else; a second pass leaves its output unchanged.
  Without the two conditions a splice makes a match that the first pass leaves: "here"
  before the replacement reads "hereby" again, and the final "t" of "of that" before a
  second "hereof" reads "thereof" again.
\<close>

theorem simplify_idempotent_on_hereby:
  assumes only: "only_hereby_triggers text"
    and hh: "\<not> contains_ci ''herehereby'' text"
    and hoo: "\<not> contains_ci ''herebyhereofhereof'' text"
  shows "simplify_legal_language text
           = sub_ci ''thereof'' ''of that'' (sub_ci ''hereby'' ''by this document'' text)
         \<and> simplify_legal_language (simplify_legal_language text) = simplify_legal_language text"
proof -
  let ?t1 = "sub_ci ''hereby'' ''by this document'' text"
  let ?t2 = "sub_ci ''thereof'' ''of that'' ?t1"
  have clean: "\<forall>p\<in>set triggers. \<not> contains_ci p ?t2"
    using thereof_pass_clean[OF only hh hoo] by blast
  have split: "simplifications = take 3 simplifications
      @ (''hereby'', ''by this document'') # (''thereof'', ''of that'') # drop 5 simplifications"
    by (simp add: simplifications_def)
  have "list_all (\<lambda>rule. fst rule \<noteq> [] \<and> \<not> contains_ci (fst rule) text) (take 3 simplifications)"
    using only by (simp add: only_hereby_triggers_def triggers_def simplifications_def)
  then have first: "foldl simplify_step text (take 3 simplifications) = text"
    by (rule foldl_simplify_idle)
  have rest: "foldl simplify_step ?t2 (drop 5 simplifications) = ?t2"
    using clean by (rule foldl_simplify_clean) (rule set_drop_subset)
  have "simplify_legal_language text
        = foldl simplify_step text (take 3 simplifications
            @ (''hereby'', ''by this document'') # (''thereof'', ''of that'') # drop 5 simplifications)"
    unfolding simplify_legal_language_def using split by simp
  also have "\<dots> = ?t2" using first rest by (simp add: simplify_step_def)
  finally have one: "simplify_legal_language text = ?t2" .
  have "simplify_legal_language ?t2 = ?t2"
    unfolding simplify_legal_language_def using clean by (rule foldl_simplify_clean) simp
  with one show ?thesis by simp
qed

theorem simplify_idempotent_on_hereby_witness:
  "only_hereby_triggers ''The parties hereby agree; herebyhereof.''
   \<and> simplify_legal_language ''The parties hereby agree; herebyhereof.''
       = ''The parties by this document agree; by this documenof that.''
   \<and> simplify_legal_language (simplify_legal_language ''The parties hereby agree; herebyhereof.'')
       = simplify_legal_language ''The parties hereby agree; herebyhereof.''"
proof -
  let ?x = "''The parties hereby agree; herebyhereof.''"
  have a: "only_hereby_triggers ?x" by code_simp
  have b: "\<not> contains_ci ''herehereby'' ?x" by code_simp
  have c: "\<not> contains_ci ''herebyhereofhereof'' ?x" by code_simp
  have d: "sub_ci ''thereof'' ''of that'' (sub_ci ''hereby'' ''by this document'' ?x)
           = ''The parties by this document agree; by this documenof that.''"
    by code_simp
  note th = simplify_idempotent_on_hereby[OF a b c]
  from th have e: "simplify_legal_language ?x
      = sub_ci ''thereof'' ''of that'' (sub_ci ''hereby'' ''by this document'' ?x)"
    by (rule conjunct1)
  from th have f: "simplify_legal_language (simplify_legal_language ?x)
       = simplify_legal_language ?x" by (rule conjunct2)
  from e d have g: "simplify_legal_language ?x
      = ''The parties by this document agree; by this documenof that.''" by (rule trans)
  show ?thesis by (rule conjI[OF a conjI[OF g f]])
qed

text \<open>
  C9 without the conditions on the neighbours does not hold. The texts "herehereby" and
  "herebyhereofhereof" have no other phrase of the table than "hereby", and the second
  pass changes the output of the first.
\<close>

theorem simplify_not_idempotent_counterexample:
  "only_hereby_triggers ''herehereby''
   \<and> simplify_legal_language ''herehereby'' = ''hereby this document''
   \<and> simplify_legal_language (simplify_legal_language ''herehereby'') = ''by this document this document''
   \<and> simplify_legal_language (simplify_legal_language ''herehereby'') \<noteq> simplify_legal_language ''herehereby''
   \<and> only_hereby_triggers ''herebyhereofhereof''
   \<and> simplify_legal_language ''herebyhereofhereof'' = ''by this documenof thathereof''
   \<and> simplify_legal_language (simplify_legal_language ''herebyhereofhereof'') = ''by this documenof thaof that''
   \<and> simplify_legal_language (simplify_legal_language ''herebyhereofhereof'')
       \<noteq> simplify_legal_language ''herebyhereofhereof''"
  by code_simp

subsection \<open>The key terms\<close>

text \<open>
  C7. On a text in which no term of the glossary occurs, \<open>extract_legal_terms_from_text\<close>
  returns the three default terms, Agreement, Party and Terms, with their definitions and
  contexts, and on every text it returns at most 15 terms and at least one.
\<close>

theorem legal_terms_defaults_and_cap:
  "length (extract_legal_terms_from_text text) \<le> 15
   \<and> extract_legal_terms_from_text text \<noteq> []
   \<and> ((\<forall>entry\<in>set legal_term_definitions. \<not> str_in (lower (fst entry)) (lower text)) \<longrightarrow>
        extract_legal_terms_from_text text =
          [[(''term'', ''Agreement''),
            (''definition'', ''A mutual understanding between parties''),
            (''context'', ''This agreement establishes terms and conditions'')],
           [(''term'', ''Party''),
            (''definition'', ''An individual or entity entering into a contract''),
            (''context'', ''Each party has rights and obligations'')],
           [(''term'', ''Terms''),
            (''definition'', ''Conditions and provisions of a contract''),
            (''context'', ''The terms of this contract are binding'')]])"
proof (intro conjI impI)
  show "length (extract_legal_terms_from_text text) \<le> 15"
    by (simp add: extract_legal_terms_from_text_def Let_def)
next
  show "extract_legal_terms_from_text text \<noteq> []"
    by (simp add: extract_legal_terms_from_text_def Let_def default_terms_def)
next
  assume none: "\<forall>entry\<in>set legal_term_definitions. \<not> str_in (lower (fst entry)) (lower text)"
  then have "filter (\<lambda>entry. str_in (lower (fst entry)) (lower text)) legal_term_definitions = []"
    by (simp add: filter_empty_conv)
  then show "extract_legal_terms_from_text text =
          [[(''term'', ''Agreement''),
            (''definition'', ''A mutual understanding between parties''),
            (''context'', ''This agreement establishes terms and conditions'')],
           [(''term'', ''Party''),
            (''definition'', ''An individual or entity entering into a contract''),
            (''context'', ''Each party has rights and obligations'')],
           [(''term'', ''Terms''),
            (''definition'', ''Conditions and provisions of a contract''),
            (''context'', ''The terms of this contract are binding'')]]"
    by (simp add: extract_legal_terms_from_text_def Let_def default_terms_def)
qed

theorem legal_terms_defaults_and_cap_witness:
  "extract_legal_terms_from_text ''Rent is due monthly.'' =
          [[(''term'', ''Agreement''),
            (''definition'', ''A mutual understanding between parties''),
            (''context'', ''This agreement establishes terms and conditions'')],
           [(''term'', ''Party''),
            (''definition'', ''An individual or entity entering into a contract''),
            (''context'', ''Each party has rights and obligations'')],
           [(''term'', ''Terms''),
            (''definition'', ''Conditions and provisions of a contract''),
            (''context'', ''The terms of this contract are binding'')]]"
proof -
  have "list_all (\<lambda>entry. \<not> str_in (lower (fst entry)) (lower ''Rent is due monthly.'')) legal_term_definitions"
    by code_simp
  then have "\<forall>entry\<in>set legal_term_definitions. \<not> str_in (lower (fst entry)) (lower ''Rent is due monthly.'')"
    by (simp add: list_all_iff)
  with legal_terms_defaults_and_cap[of "''Rent is due monthly.''"] show ?thesis by blast
qed

subsection \<open>The risk level\<close>

lemma fst_foldl_risk_step:
  "fst (foldl (risk_step text text_lower) state indicators)
   = fst state + (\<Sum>(indicator, points)\<leftarrow>indicators. if str_in indicator text_lower then points else 0)"
proof (induction indicators arbitrary: state)
  case Nil
  then show ?case by simp
next
  case (Cons entry indicators)
  obtain score rs an where st: "state = (score, rs, an)" by (cases state) auto
  obtain indicator points where en: "entry = (indicator, points)" by (cases entry) auto
  have "fst (risk_step text text_lower state entry)
        = fst state + (if str_in indicator text_lower then points else 0)"
    by (simp add: risk_step_def st en Let_def)
  with Cons.IH[of "risk_step text text_lower state entry"] en show ?case by simp
qed

lemma foldl_levels:
  "foldl (\<lambda>state (level, indicators). foldl f state indicators) state levels
   = foldl f state (concat (map snd levels))"
  by (induction levels arbitrary: state) (auto split: prod.splits)

lemma raw_risk_score_sum:
  "raw_risk_score text =
     (\<Sum>(indicator, points)\<leftarrow>concat (map snd risk_indicators).
        if str_in indicator (lower text) then points else 0)
     + (if str_in ''without limitation'' (lower text) then 2 else 0)
     + (if str_in ''at will'' (lower text) then 1 else 0)
     + (if 2 < count_penalty False (lower text) then 2 else 0)"
proof -
  let ?s1 = "foldl (risk_step text (lower text)) (0, [], []) (concat (map snd risk_indicators))"
  have a: "fst (without_limitation tl st) = fst st + (if str_in ''without limitation'' tl then 2 else 0)"
    for tl st by (cases st) (simp add: without_limitation_def)
  have b: "fst (at_will tl st) = fst st + (if str_in ''at will'' tl then 1 else 0)"
    for tl st by (cases st) (simp add: at_will_def)
  have c: "fst (penalty_clauses tl st) = fst st + (if 2 < count_penalty False tl then 2 else 0)"
    for tl st by (cases st) (simp add: penalty_clauses_def)
  have "raw_risk_score text
        = fst (penalty_clauses (lower text) (at_will (lower text) (without_limitation (lower text) ?s1)))"
    by (simp add: raw_risk_score_def risk_scan_def Let_def foldl_levels)
  also have "\<dots> = fst ?s1 + (if str_in ''without limitation'' (lower text) then 2 else 0)
     + (if str_in ''at will'' (lower text) then 1 else 0)
     + (if 2 < count_penalty False (lower text) then 2 else 0)"
    by (simp only: a b c)
  finally show ?thesis by (simp only: fst_foldl_risk_step fst_conv add_0)
qed

text \<open>
  C2. The level is decided by the score before it is clamped: a raw score of 8 or more gives
  HIGH, from 4 to 7 MEDIUM, from 0 to 3 LOW, below 0 VERY LOW; the reported score is the
  maximum of 0 and the raw score. The raw score is the sum of the points of the indicators
  that occur in the lowered text, plus 2 for "without limitation", 1 for "at will" and 2
  for more than two penalty words.
\<close>

theorem risk_level_from_raw_score:
  "(8 \<le> raw_risk_score text \<longrightarrow> risk_level (assess_contract_risks text) = ''HIGH'')
   \<and> (4 \<le> raw_risk_score text \<and> raw_risk_score text < 8 \<longrightarrow>
        risk_level (assess_contract_risks text) = ''MEDIUM'')
   \<and> (0 \<le> raw_risk_score text \<and> raw_risk_score text < 4 \<longrightarrow>
        risk_level (assess_contract_risks text) = ''LOW'')
   \<and> (raw_risk_score text < 0 \<longrightarrow> risk_level (assess_contract_risks text) = ''VERY LOW'')
   \<and> risk_score (assess_contract_risks text) = max 0 (raw_risk_score text)
   \<and> raw_risk_score text =
       (\<Sum>(indicator, points)\<leftarrow>concat (map snd risk_indicators).
          if str_in indicator (lower text) then points else 0)
       + (if str_in ''without limitation'' (lower text) then 2 else 0)
       + (if str_in ''at will'' (lower text) then 1 else 0)
       + (if 2 < count_penalty False (lower text) then 2 else 0)"
proof -
  obtain score rs an where scan: "risk_scan text = (score, rs, an)"
    by (cases "risk_scan text") auto
  then have raw: "raw_risk_score text = score" by (simp add: raw_risk_score_def)
  have level: "risk_level (assess_contract_risks text) =
      (if 8 \<le> score then ''HIGH'' else if 4 \<le> score then ''MEDIUM''
       else if 0 \<le> score then ''LOW'' else ''VERY LOW'')"
    by (simp add: assess_contract_risks_def scan Let_def)
  have reported: "risk_score (assess_contract_risks text) = max 0 score"
    by (simp add: assess_contract_risks_def scan Let_def)
  from level reported raw raw_risk_score_sum[of "text"] show ?thesis by auto
qed

theorem risk_level_from_raw_score_witness:
  "raw_risk_score ''criminal liability, unlimited liability, at will'' = 8
   \<and> risk_level (assess_contract_risks ''criminal liability, unlimited liability, at will'') = ''HIGH''
   \<and> raw_risk_score ''criminal liability, unlimited liability'' = 7
   \<and> risk_level (assess_contract_risks ''criminal liability, unlimited liability'') = ''MEDIUM''
   \<and> raw_risk_score ''rent'' = 0
   \<and> risk_level (assess_contract_risks ''rent'') = ''LOW''
   \<and> raw_risk_score ''mutual'' = -1
   \<and> risk_level (assess_contract_risks ''mutual'') = ''VERY LOW''
   \<and> risk_score (assess_contract_risks ''mutual'') = 0"
proof -
  have r8: "raw_risk_score ''criminal liability, unlimited liability, at will'' = 8" by code_simp
  have r7: "raw_risk_score ''criminal liability, unlimited liability'' = 7" by code_simp
  have r0: "raw_risk_score ''rent'' = 0" by code_simp
  have r1: "raw_risk_score ''mutual'' = -1" by code_simp
  from r8 risk_level_from_raw_score[of "''criminal liability, unlimited liability, at will''"]
  have l8: "risk_level (assess_contract_risks ''criminal liability, unlimited liability, at will'') = ''HIGH''"
    by simp
  from r7 risk_level_from_raw_score[of "''criminal liability, unlimited liability''"]
  have l7: "risk_level (assess_contract_risks ''criminal liability, unlimited liability'') = ''MEDIUM''"
    by simp
  from r0 risk_level_from_raw_score[of "''rent''"]
  have l0: "risk_level (assess_contract_risks ''rent'') = ''LOW''"
    by simp
  from r1 risk_level_from_raw_score[of "''mutual''"]
  have l1: "risk_level (assess_contract_risks ''mutual'') = ''VERY LOW''"
    and s1: "risk_score (assess_contract_risks ''mutual'') = 0"
    by simp_all
  from r8 l8 r7 l7 r0 l0 r1 l1 s1 show ?thesis by simp
qed

subsection \<open>De-duplication in insertion order\<close>

lemma set_fromkeys_from: "set (fromkeys_from seen xs) = set xs - set seen"
  by (induction xs arbitrary: seen) auto

lemma distinct_fromkeys_from: "distinct (fromkeys_from seen xs)"
  by (induction xs arbitrary: seen) (auto simp: set_fromkeys_from)

lemma subseq_fromkeys_from: "subseq (fromkeys_from seen xs) xs"
  by (induction xs arbitrary: seen) auto

lemma fromkeys_first_occurrences:
  "distinct (fromkeys xs) \<and> set (fromkeys xs) = set xs \<and> subseq (fromkeys xs) xs"
  by (simp add: fromkeys_def set_fromkeys_from distinct_fromkeys_from subseq_fromkeys_from)

subsection \<open>The obligation lists\<close>

lemma obligation_step_lists:
  "obligation_step
     [(''all_obligations'', a), (''critical_obligations'', c),
      (''payment_obligations'', p), (''performance_obligations'', f)] s
   = [(''all_obligations'', a @ obligation_excerpts obligation_keywords [s]),
      (''critical_obligations'', c @ obligation_excerpts critical_keywords [s]),
      (''payment_obligations'', p @ obligation_excerpts payment_keywords [s]),
      (''performance_obligations'', f @ obligation_excerpts performance_keywords [s])]"
  by (simp add: obligation_step_def obligation_excerpts_def append_at_def Let_def)

lemma obligation_excerpts_Cons:
  "obligation_excerpts keywords (s # ss)
   = obligation_excerpts keywords [s] @ obligation_excerpts keywords ss"
  by (simp add: obligation_excerpts_def)

lemma foldl_obligation_step:
  "foldl obligation_step
     [(''all_obligations'', a), (''critical_obligations'', c),
      (''payment_obligations'', p), (''performance_obligations'', f)] ss
   = [(''all_obligations'', a @ obligation_excerpts obligation_keywords ss),
      (''critical_obligations'', c @ obligation_excerpts critical_keywords ss),
      (''payment_obligations'', p @ obligation_excerpts payment_keywords ss),
      (''performance_obligations'', f @ obligation_excerpts performance_keywords ss)]"
proof (induction ss arbitrary: a c p f)
  case Nil
  then show ?case by (simp add: obligation_excerpts_def)
next
  case (Cons s ss)
  show ?case
    by (simp only: foldl_Cons obligation_step_lists Cons.IH obligation_excerpts_Cons[of _ s ss]
        append_assoc)
qed

lemma extract_precise_obligations_lists:
  "extract_precise_obligations text =
     map (\<lambda>(key, keywords). (key, category_list (obligation_excerpts keywords (split_sentences text))))
       obligation_categories"
  by (simp add: extract_precise_obligations_def no_obligations_def Let_def
      foldl_obligation_step[of "[]" "[]" "[]" "[]", simplified] category_list_def
      obligation_categories_def)

lemma clean_obligation_length: "length (clean_obligation s) \<le> 303"
  by (simp add: clean_obligation_def)

lemma category_list_props:
  assumes "\<forall>x\<in>set excerpts. length x \<le> 303"
  shows "category_list excerpts \<noteq> [] \<and> length (category_list excerpts) \<le> 10
         \<and> distinct (category_list excerpts)
         \<and> (\<forall>x\<in>set (category_list excerpts). length x \<le> 303)"
proof (cases "excerpts = []")
  case True
  then show ?thesis by (simp add: category_list_def)
next
  case False
  then have "fromkeys excerpts \<noteq> []"
    using fromkeys_first_occurrences[of excerpts] by (metis set_empty)
  moreover have "\<forall>x\<in>set (take 10 (fromkeys excerpts)). length x \<le> 303"
    using assms fromkeys_first_occurrences[of excerpts] by (metis in_set_takeD)
  ultimately show ?thesis
    using False fromkeys_first_occurrences[of excerpts]
    by (simp add: category_list_def)
qed

text \<open>
  C6, as the code has it. The result has the four categories. The list of a category is the
  placeholder alone when no sentence qualified, else the excerpts of its qualifying
  sentences, each once, in the order of their first occurrence, cut to ten. An excerpt is
  the sentence when that has at most 300 characters, else its first 300 characters followed
  by "...": 303 characters, not 300.
\<close>

theorem obligation_lists:
  "extract_precise_obligations text =
     map (\<lambda>(key, keywords). (key, category_list (obligation_excerpts keywords (split_sentences text))))
       obligation_categories
   \<and> (\<forall>(key, found)\<in>set (extract_precise_obligations text).
        found \<noteq> [] \<and> length found \<le> 10 \<and> distinct found \<and> (\<forall>x\<in>set found. length x \<le> 303))
   \<and> category_list [] = [''No specific obligations identified in this category'']
   \<and> (excerpts \<noteq> [] \<longrightarrow>
        category_list excerpts = take 10 (fromkeys excerpts)
        \<and> distinct (fromkeys excerpts) \<and> set (fromkeys excerpts) = set excerpts
        \<and> subseq (fromkeys excerpts) excerpts)
   \<and> clean_obligation sentence =
       (if length sentence \<le> 300 then sentence else take 300 sentence @ ''...'')"
proof (intro conjI)
  show "extract_precise_obligations text =
     map (\<lambda>(key, keywords). (key, category_list (obligation_excerpts keywords (split_sentences text))))
       obligation_categories"
    by (rule extract_precise_obligations_lists)
next
  have ex: "\<forall>x\<in>set (obligation_excerpts kws ss). length x \<le> 303" for kws ss
    by (auto simp: obligation_excerpts_def clean_obligation_length)
  show "\<forall>(key, found)\<in>set (extract_precise_obligations text).
        found \<noteq> [] \<and> length found \<le> 10 \<and> distinct found \<and> (\<forall>x\<in>set found. length x \<le> 303)"
    unfolding extract_precise_obligations_lists
    using category_list_props[OF ex] by auto
next
  show "category_list [] = [''No specific obligations identified in this category'']"
    by (simp add: category_list_def)
next
  show "excerpts \<noteq> [] \<longrightarrow>
        category_list excerpts = take 10 (fromkeys excerpts)
        \<and> distinct (fromkeys excerpts) \<and> set (fromkeys excerpts) = set excerpts
        \<and> subseq (fromkeys excerpts) excerpts"
    using fromkeys_first_occurrences[of excerpts] by (simp add: category_list_def)
next
  show "clean_obligation sentence =
       (if length sentence \<le> 300 then sentence else take 300 sentence @ ''...'')"
    by (simp add: clean_obligation_def)
qed

theorem obligation_lists_witness:
  "extract_precise_obligations ''The contractor shall deliver goods within 30 days. Ok.'' =
     [(''all_obligations'', [''The contractor shall deliver goods within 30 days'']),
      (''critical_obligations'', [''The contractor shall deliver goods within 30 days'']),
      (''payment_obligations'', [''No specific obligations identified in this category'']),
      (''performance_obligations'', [''The contractor shall deliver goods within 30 days''])]"
proof -
  have "map (\<lambda>(key, keywords).
          (key, category_list (obligation_excerpts keywords
             (split_sentences ''The contractor shall deliver goods within 30 days. Ok.''))))
          obligation_categories =
     [(''all_obligations'', [''The contractor shall deliver goods within 30 days'']),
      (''critical_obligations'', [''The contractor shall deliver goods within 30 days'']),
      (''payment_obligations'', [''No specific obligations identified in this category'']),
      (''performance_obligations'', [''The contractor shall deliver goods within 30 days''])]"
    by code_simp
  with obligation_lists[of "''The contractor shall deliver goods within 30 days. Ok.''" "[]" "[]"]
  show ?thesis by (simp only:)
qed

text \<open>
  C6 with a bound of 300 characters does not hold: the excerpt of a sentence of 313
  characters is 303 characters long in the result.
\<close>

theorem obligation_excerpt_counterexample:
  "extract_precise_obligations (''We shall pay '' @ replicate 300 (CHR ''x'')) =
     [(''all_obligations'', [''We shall pay '' @ replicate 287 (CHR ''x'') @ ''...'']),
      (''critical_obligations'', [''No specific obligations identified in this category'']),
      (''payment_obligations'', [''We shall pay '' @ replicate 287 (CHR ''x'') @ ''...'']),
      (''performance_obligations'', [''No specific obligations identified in this category''])]
   \<and> length (''We shall pay '' @ replicate 287 (CHR ''x'') @ ''...'') = 303
   \<and> \<not> length (''We shall pay '' @ replicate 287 (CHR ''x'') @ ''...'') \<le> 300"
  by code_simp

subsection \<open>The section buckets\<close>

lemma classify_step_bucket: "classify_step sections p = append_at sections (bucket p) p"
  by (simp add: classify_step_def bucket_def Let_def)

lemma append_at_filter:
  "append_at sections (bucket p) p
   = map (\<lambda>(k, found). (k, found @ filter (\<lambda>q. bucket q = k) [p])) sections"
  by (induction sections) (auto simp: append_at_def)

lemma foldl_classify_step:
  "foldl classify_step sections ps
   = map (\<lambda>(k, found). (k, found @ filter (\<lambda>p. bucket p = k) ps)) sections"
proof (induction ps arbitrary: sections)
  case Nil
  then show ?case by (simp add: case_prod_unfold)
next
  case (Cons p ps)
  have "foldl classify_step sections (p # ps)
        = foldl classify_step (append_at sections (bucket p) p) ps"
    by (simp add: classify_step_bucket)
  also have "\<dots> = map (\<lambda>(k, found). (k, found @ filter (\<lambda>p. bucket p = k) ps))
                     (map (\<lambda>(k, found). (k, found @ filter (\<lambda>q. bucket q = k) [p])) sections)"
    by (simp only: Cons.IH append_at_filter)
  also have "\<dots> = map (\<lambda>(k, found). (k, found @ filter (\<lambda>q. bucket q = k) (p # ps))) sections"
    by (induction sections) auto
  finally show ?case .
qed

text \<open>The score \<^verbatim>\<open>best_match\<close> compares: \<^verbatim>\<open>general_terms\<close> is skipped, which is to count 0 for it.\<close>

lemma best_step_alt:
  "best_step pl best c =
     (let s = (if fst c = ''general_terms'' then 0 else keyword_score (snd c) pl)
      in if snd best < s then (fst c, s) else best)"
  by (cases c) (simp add: best_step_def Let_def)

lemma foldl_best_keep:
  assumes "\<forall>c\<in>set cs. (if fst c = ''general_terms'' then 0 else keyword_score (snd c) pl) \<le> snd best"
  shows "foldl (best_step pl) best cs = best"
  using assms by (induction cs arbitrary: best) (auto simp: best_step_alt Let_def)

lemma foldl_best_below:
  assumes "snd best < s"
    and "\<forall>c\<in>set cs. (if fst c = ''general_terms'' then 0 else keyword_score (snd c) pl) < s"
  shows "snd (foldl (best_step pl) best cs) < s"
  using assms by (induction cs arbitrary: best) (auto simp: best_step_alt Let_def)

lemma foldl_best_first_max:
  assumes k: "k \<noteq> ''general_terms''" and s: "0 < keyword_score kws pl"
    and pre: "\<forall>c\<in>set pre. (if fst c = ''general_terms'' then 0 else keyword_score (snd c) pl)
                < keyword_score kws pl"
    and post: "\<forall>c\<in>set post. (if fst c = ''general_terms'' then 0 else keyword_score (snd c) pl)
                \<le> keyword_score kws pl"
  shows "foldl (best_step pl) (''general_terms'', 0) (pre @ (k, kws) # post) = (k, keyword_score kws pl)"
proof -
  let ?b = "foldl (best_step pl) (''general_terms'', 0) pre"
  have "snd ?b < keyword_score kws pl" using s pre by (intro foldl_best_below) auto
  then have "best_step pl ?b (k, kws) = (k, keyword_score kws pl)"
    using k by (simp add: best_step_alt)
  moreover have "foldl (best_step pl) (k, keyword_score kws pl) post = (k, keyword_score kws pl)"
    using post by (intro foldl_best_keep) auto
  ultimately show ?thesis by simp
qed

lemma section_keywords_length: "length section_keywords = 8"
  by (simp add: section_keywords_def)

lemma section_keywords_names:
  "map fst section_keywords =
     [''payment_terms'', ''termination_clauses'', ''liability_limitations'', ''warranty_disclaimers'',
      ''confidentiality'', ''intellectual_property'', ''dispute_resolution'', ''general_terms'']"
  by (simp add: section_keywords_def)

lemma section_keywords_last: "section_keywords ! 7 = (''general_terms'', [])"
  by (simp add: section_keywords_def)

lemma section_name_not_general:
  assumes "i < 7"
  shows "fst (section_keywords ! i) \<noteq> ''general_terms''"
proof -
  have "fst (section_keywords ! i) = map fst section_keywords ! i"
    using assms by (simp add: section_keywords_length)
  moreover from assms have "i = 0 \<or> i = 1 \<or> i = 2 \<or> i = 3 \<or> i = 4 \<or> i = 5 \<or> i = 6" by auto
  ultimately show ?thesis by (auto simp: section_keywords_names)
qed

lemma generic_score:
  assumes "j < 8"
  shows "(if fst (section_keywords ! j) = ''general_terms'' then 0
          else keyword_score (snd (section_keywords ! j)) pl)
         = (if j < 7 then keyword_score (snd (section_keywords ! j)) pl else 0)"
proof (cases "j < 7")
  case True
  then show ?thesis using section_name_not_general[of j] by simp
next
  case False
  with assms have "j = 7" by simp
  then show ?thesis by (simp add: section_keywords_last)
qed

lemma bucket_general:
  assumes "\<forall>j<7. category_score j p = 0"
  shows "bucket p = ''general_terms''"
proof -
  have "\<forall>c\<in>set section_keywords.
          (if fst c = ''general_terms'' then 0 else keyword_score (snd c) (lower p))
          \<le> snd (''general_terms'', 0::nat)"
  proof
    fix c assume "c \<in> set section_keywords"
    then obtain j where j: "j < 8" "c = section_keywords ! j"
      by (auto simp: in_set_conv_nth section_keywords_length)
    have "(if fst c = ''general_terms'' then 0 else keyword_score (snd c) (lower p))
          = (if j < 7 then category_score j p else 0)"
      unfolding j(2) category_score_def by (rule generic_score[OF j(1)])
    also have "\<dots> = 0" using assms by simp
    finally show "(if fst c = ''general_terms'' then 0 else keyword_score (snd c) (lower p))
          \<le> snd (''general_terms'', 0::nat)"
      by simp
  qed
  then have "best_match p = (''general_terms'', 0)"
    unfolding best_match_def by (rule foldl_best_keep)
  then show ?thesis by (simp add: bucket_def)
qed

lemma bucket_first_max:
  assumes i: "i < 7" and pos: "0 < category_score i p"
    and mx: "\<forall>j<7. category_score j p \<le> category_score i p"
    and first: "\<forall>j<i. category_score j p < category_score i p"
  shows "bucket p = fst (section_keywords ! i)"
proof -
  let ?pl = "lower p"
  obtain k kws where c: "section_keywords ! i = (k, kws)" by (cases "section_keywords ! i") auto
  have len: "i < length section_keywords" using i by (simp add: section_keywords_length)
  have split: "section_keywords = take i section_keywords @ (k, kws) # drop (Suc i) section_keywords"
    using id_take_nth_drop[OF len] c by simp
  have k: "k \<noteq> ''general_terms''" using section_name_not_general[OF i] c by simp
  have s: "category_score i p = keyword_score kws ?pl" using c by (simp add: category_score_def)
  have pre: "\<forall>c\<in>set (take i section_keywords).
      (if fst c = ''general_terms'' then 0 else keyword_score (snd c) ?pl) < keyword_score kws ?pl"
  proof
    fix c assume "c \<in> set (take i section_keywords)"
    then obtain j where j: "j < i" "c = section_keywords ! j"
      using len by (auto simp: in_set_conv_nth)
    then have j8: "j < 8" and j7: "j < 7" using i by simp_all
    have "(if fst c = ''general_terms'' then 0 else keyword_score (snd c) ?pl)
          = (if j < 7 then category_score j p else 0)"
      unfolding j(2) category_score_def by (rule generic_score[OF j8])
    also have "\<dots> < category_score i p" using j7 j(1) first by simp
    finally show
      "(if fst c = ''general_terms'' then 0 else keyword_score (snd c) ?pl) < keyword_score kws ?pl"
      by (simp add: s)
  qed
  have post: "\<forall>c\<in>set (drop (Suc i) section_keywords).
      (if fst c = ''general_terms'' then 0 else keyword_score (snd c) ?pl) \<le> keyword_score kws ?pl"
  proof
    fix c assume "c \<in> set (drop (Suc i) section_keywords)"
    then have "c \<in> set section_keywords" by (rule in_set_dropD)
    then obtain j where j: "j < 8" "c = section_keywords ! j"
      by (auto simp: in_set_conv_nth section_keywords_length)
    have "(if fst c = ''general_terms'' then 0 else keyword_score (snd c) ?pl)
          = (if j < 7 then category_score j p else 0)"
      unfolding j(2) category_score_def by (rule generic_score[OF j(1)])
    also have "\<dots> \<le> category_score i p" using mx by simp
    finally show
      "(if fst c = ''general_terms'' then 0 else keyword_score (snd c) ?pl) \<le> keyword_score kws ?pl"
      by (simp add: s)
  qed
  have "best_match p = foldl (best_step ?pl) (''general_terms'', 0)
          (take i section_keywords @ (k, kws) # drop (Suc i) section_keywords)"
    unfolding best_match_def using split by simp
  also have "\<dots> = (k, keyword_score kws ?pl)"
    using k pos pre post unfolding s by (rule foldl_best_first_max)
  finally show ?thesis using pos s c by (simp add: bucket_def)
qed

lemma identify_contract_sections_buckets:
  "identify_contract_sections text
   = map (\<lambda>k. (k, filter (\<lambda>p. bucket p = k) (paragraphs text))) (map fst section_keywords)"
  by (simp add: identify_contract_sections_def foldl_classify_step comp_def case_prod_unfold)

lemma bucket_is_key: "bucket p \<in> set (map fst section_keywords)"
proof (cases "\<forall>j<7. category_score j p = 0")
  case True
  then show ?thesis by (simp add: bucket_general section_keywords_names)
next
  case False
  define m where "m = Max ((\<lambda>j. category_score j p) ` {..<7})"
  define i where "i = (LEAST j. j < 7 \<and> category_score j p = m)"
  have fin: "finite ((\<lambda>j. category_score j p) ` {..<(7::nat)})" by simp
  have "(0::nat) \<in> {..<7}" by simp
  then have ne: "(\<lambda>j. category_score j p) ` {..<(7::nat)} \<noteq> {}" by blast
  have "m \<in> (\<lambda>j. category_score j p) ` {..<7}"
    unfolding m_def by (rule Max_in[OF fin ne])
  then obtain j0 where j0: "j0 < 7" "category_score j0 p = m" by auto
  then have iP: "i < 7 \<and> category_score i p = m"
    unfolding i_def by (metis (mono_tags, lifting) LeastI)
  have mx: "\<forall>j<7. category_score j p \<le> m"
    unfolding m_def using fin by (auto intro: Max_ge)
  have first: "\<forall>j<i. category_score j p < m"
  proof (intro allI impI)
    fix j assume ji: "j < i"
    then have "j < 7" using iP by simp
    moreover have "\<not> (j < 7 \<and> category_score j p = m)"
      using not_less_Least[of j "\<lambda>j. j < 7 \<and> category_score j p = m"] ji by (simp add: i_def)
    ultimately show "category_score j p < m" using mx by (metis le_neq_implies_less)
  qed
  from False obtain j1 where "j1 < 7" "0 < category_score j1 p" by auto
  with mx have "0 < m" by (metis le_zero_eq not_gr_zero)
  with iP mx first have "bucket p = fst (section_keywords ! i)"
    by (intro bucket_first_max) auto
  then show ?thesis using iP by (simp add: section_keywords_length)
qed


lemma one_bucket:
  assumes "p \<in> set ps"
  shows "length (filter (\<lambda>(key, found). p \<in> set found)
           (map (\<lambda>k. (k, filter (\<lambda>q. bucket q = k) ps)) (map fst section_keywords))) = 1"
proof -
  have "bucket p \<in> set (map fst section_keywords)" by (rule bucket_is_key)
  then have one: "length (filter (\<lambda>k. bucket p = k) (map fst section_keywords)) = 1"
    unfolding section_keywords_names by auto
  have eq: "filter (\<lambda>(key, found). p \<in> set found)
           (map (\<lambda>k. (k, filter (\<lambda>q. bucket q = k) ps)) ks)
        = map (\<lambda>k. (k, filter (\<lambda>q. bucket q = k) ps)) (filter (\<lambda>k. bucket p = k) ks)" for ks
    using assms by (induction ks) auto
  show ?thesis unfolding eq length_map by (rule one)
qed

text \<open>
  C3, as the code has it. For every text the result has the eight bucket keys, in the
  order of the table. The list of a bucket is the list of the paragraphs of the split whose
  bucket it is, in the order of the text, so every paragraph is in the list of exactly one
  entry. The count of a category is the number of its keywords that occur in the lowered
  paragraph, each keyword counted once however often it occurs. The bucket of a paragraph
  is \<^verbatim>\<open>general_terms\<close> when every count is 0; else it is the category whose count is
  positive, is not exceeded by any other count, and exceeds the count of every category
  before it in the table: the first one with the highest count.
\<close>

theorem sections_buckets:
  "map fst (identify_contract_sections text) =
     [''payment_terms'', ''termination_clauses'', ''liability_limitations'', ''warranty_disclaimers'',
      ''confidentiality'', ''intellectual_property'', ''dispute_resolution'', ''general_terms'']
   \<and> (\<forall>(key, found)\<in>set (identify_contract_sections text).
         found = filter (\<lambda>p. bucket p = key) (paragraphs text))
   \<and> (\<forall>p\<in>set (paragraphs text).
         length (filter (\<lambda>(key, found). p \<in> set found) (identify_contract_sections text)) = 1)
   \<and> (\<forall>p. (\<forall>j<7. category_score j p = 0) \<longrightarrow> bucket p = ''general_terms'')
   \<and> (\<forall>p i. i < 7 \<and> 0 < category_score i p
          \<and> (\<forall>j<7. category_score j p \<le> category_score i p)
          \<and> (\<forall>j<i. category_score j p < category_score i p)
          \<longrightarrow> bucket p = fst (section_keywords ! i))"
proof (intro conjI)
  show "map fst (identify_contract_sections text) =
     [''payment_terms'', ''termination_clauses'', ''liability_limitations'', ''warranty_disclaimers'',
      ''confidentiality'', ''intellectual_property'', ''dispute_resolution'', ''general_terms'']"
    by (simp add: identify_contract_sections_buckets comp_def section_keywords_names[symmetric])
next
  show "\<forall>(key, found)\<in>set (identify_contract_sections text).
         found = filter (\<lambda>p. bucket p = key) (paragraphs text)"
    by (auto simp: identify_contract_sections_buckets)
next
  show "\<forall>p\<in>set (paragraphs text).
         length (filter (\<lambda>(key, found). p \<in> set found) (identify_contract_sections text)) = 1"
    unfolding identify_contract_sections_buckets using one_bucket by blast
next
  show "\<forall>p. (\<forall>j<7. category_score j p = 0) \<longrightarrow> bucket p = ''general_terms''"
    using bucket_general by blast
next
  show "\<forall>p i. i < 7 \<and> 0 < category_score i p
          \<and> (\<forall>j<7. category_score j p \<le> category_score i p)
          \<and> (\<forall>j<i. category_score j p < category_score i p)
          \<longrightarrow> bucket p = fst (section_keywords ! i)"
    using bucket_first_max by blast
qed

theorem sections_buckets_witness:
  "paragraphs
     (''The fee is repaid upon termination as described in article nine below''
       @ [CHR 0x0A, CHR 0x0A]
       @ ''This paragraph holds no keyword of any table at all, it is quite plain.'') =
     [''The fee is repaid upon termination as described in article nine below'',
      ''This paragraph holds no keyword of any table at all, it is quite plain.'']
   \<and> map (\<lambda>j. category_score j ''The fee is repaid upon termination as described in article nine below'')
         [0..<7] = [1, 1, 0, 0, 0, 0, 0]
   \<and> bucket ''The fee is repaid upon termination as described in article nine below'' = ''payment_terms''
   \<and> bucket ''This paragraph holds no keyword of any table at all, it is quite plain.'' = ''general_terms''
   \<and> length (filter (\<lambda>(key, found).
          ''The fee is repaid upon termination as described in article nine below'' \<in> set found)
          (identify_contract_sections
     (''The fee is repaid upon termination as described in article nine below''
       @ [CHR 0x0A, CHR 0x0A]
       @ ''This paragraph holds no keyword of any table at all, it is quite plain.''))) = 1"
proof -
  let ?p1 = "''The fee is repaid upon termination as described in article nine below''"
  let ?p2 = "''This paragraph holds no keyword of any table at all, it is quite plain.''"
  note th = sections_buckets[of "(''The fee is repaid upon termination as described in article nine below'' @ [CHR 0x0A, CHR 0x0A] @ ''This paragraph holds no keyword of any table at all, it is quite plain.'')"]
  have ps: "paragraphs
     (''The fee is repaid upon termination as described in article nine below''
       @ [CHR 0x0A, CHR 0x0A]
       @ ''This paragraph holds no keyword of any table at all, it is quite plain.'') = [?p1, ?p2]" by code_simp
  have s1: "map (\<lambda>j. category_score j ?p1) [0..<7] = [1, 1, 0, 0, 0, 0, 0]" by code_simp
  have s2: "list_all (\<lambda>j. category_score j ?p2 = 0) [0..<7]" by code_simp
  have up: "[0..<7] = [0, 1, 2, 3, 4, 5, 6]" by code_simp
  have all7: "(\<forall>j<7. P j) = list_all P [0..<7]" for P :: "nat \<Rightarrow> bool"
    by (auto simp: list_all_iff)
  from s1 have v: "category_score 0 ?p1 = 1" "category_score 1 ?p1 = 1" "category_score 2 ?p1 = 0"
    "category_score 3 ?p1 = 0" "category_score 4 ?p1 = 0" "category_score 5 ?p1 = 0"
    "category_score 6 ?p1 = 0"
    unfolding up by simp_all
  have mx: "\<forall>j<7. category_score j ?p1 \<le> category_score 0 ?p1"
    unfolding all7 up using v by simp
  from th have first_max: "\<forall>p i. i < 7 \<and> 0 < category_score i p
          \<and> (\<forall>j<7. category_score j p \<le> category_score i p)
          \<and> (\<forall>j<i. category_score j p < category_score i p)
          \<longrightarrow> bucket p = fst (section_keywords ! i)" by blast
  with mx v(1) have "bucket ?p1 = fst (section_keywords ! 0)" by simp
  then have b1: "bucket ?p1 = ''payment_terms''" by (simp add: section_keywords_def)
  from th have "\<forall>p. (\<forall>j<7. category_score j p = 0) \<longrightarrow> bucket p = ''general_terms''" by blast
  with s2 have b2: "bucket ?p2 = ''general_terms''" unfolding all7 by blast
  from th have "\<forall>p\<in>set (paragraphs
     (''The fee is repaid upon termination as described in article nine below''
       @ [CHR 0x0A, CHR 0x0A]
       @ ''This paragraph holds no keyword of any table at all, it is quite plain.'')).
         length (filter (\<lambda>(key, found). p \<in> set found) (identify_contract_sections
     (''The fee is repaid upon termination as described in article nine below''
       @ [CHR 0x0A, CHR 0x0A]
       @ ''This paragraph holds no keyword of any table at all, it is quite plain.''))) = 1"
    by blast
  with ps have one: "length (filter (\<lambda>(key, found). ?p1 \<in> set found)
          (identify_contract_sections
     (''The fee is repaid upon termination as described in article nine below''
       @ [CHR 0x0A, CHR 0x0A]
       @ ''This paragraph holds no keyword of any table at all, it is quite plain.''))) = 1" by simp
  from ps s1 b1 b2 one show ?thesis by blast
qed

text \<open>
  C3 with the count of occurrences does not hold. The paragraph has five occurrences of
  the payment keyword "fee" and one each of the termination keywords "terminate" and
  "breach": by occurrences \<^verbatim>\<open>payment_terms\<close> has the highest count, and the paragraph is put
  in \<^verbatim>\<open>termination_clauses\<close>, which has two keywords present against one.
\<close>

theorem sections_occurrence_counterexample:
  "paragraphs ''fee fee fee fee fee, the tenant may terminate upon breach of this lease agreement''
     = [''fee fee fee fee fee, the tenant may terminate upon breach of this lease agreement'']
   \<and> map (\<lambda>j. occurrence_count j
          ''fee fee fee fee fee, the tenant may terminate upon breach of this lease agreement'')
         [0..<7] = [5, 2, 0, 0, 0, 0, 0]
   \<and> map (\<lambda>j. category_score j
          ''fee fee fee fee fee, the tenant may terminate upon breach of this lease agreement'')
         [0..<7] = [1, 2, 0, 0, 0, 0, 0]
   \<and> identify_contract_sections
        ''fee fee fee fee fee, the tenant may terminate upon breach of this lease agreement''
     = [(''payment_terms'', []),
        (''termination_clauses'',
         [''fee fee fee fee fee, the tenant may terminate upon breach of this lease agreement'']),
        (''liability_limitations'', []), (''warranty_disclaimers'', []), (''confidentiality'', []),
        (''intellectual_property'', []), (''dispute_resolution'', []), (''general_terms'', [])]"
  by code_simp

subsection \<open>The relevant clauses\<close>

lemma word_overlap_card: "word_overlap a b = card (set a \<inter> set b)"
proof -
  let ?xs = "filter (\<lambda>w. w \<in> set b) (remdups a)"
  have "distinct ?xs" by simp
  then have "card (set ?xs) = length ?xs" by (rule distinct_card)
  moreover have "set ?xs = set a \<inter> set b" by auto
  ultimately show ?thesis unfolding word_overlap_def by metis
qed

lemma clause_of_kept:
  "clause_of question_words sentence =
     (if 50 < length (strip sentence)
         \<and> 2 \<le> word_overlap question_words (split_ws (lower sentence))
      then [clip_clause (strip sentence)] else [])"
  by (auto simp: clause_of_def Let_def)

lemma concat_clause_of:
  "concat (map (clause_of question_words) sentences) =
     map (\<lambda>s. clip_clause (strip s))
       (filter (\<lambda>s. 50 < length (strip s) \<and> 2 \<le> word_overlap question_words (split_ws (lower s)))
          sentences)"
  by (induction sentences) (simp_all add: clause_of_kept)

lemma clip_clause_length: "length (clip_clause c) \<le> 253"
  by (simp add: clip_clause_def)

text \<open>
  C5, as the code has it. The clauses are taken from the sentences of the context, split at
  runs of sentence terminators, that have more than 50 characters once stripped and share
  at least two distinct lower-case words with the question; a clause is the stripped
  sentence when that has at most 250 characters, else its first 250 characters followed by
  "..."; the first five are returned.
\<close>

theorem relevant_clauses_kept:
  "extract_relevant_clauses context question =
     take 5 (map (\<lambda>s. clip_clause (strip s))
       (filter (\<lambda>s. 50 < length (strip s)
                  \<and> 2 \<le> word_overlap (split_ws (lower question)) (split_ws (lower s)))
          (split_sentences context)))
   \<and> length (extract_relevant_clauses context question) \<le> 5
   \<and> (\<forall>c\<in>set (extract_relevant_clauses context question). length c \<le> 253)
   \<and> clip_clause clause = (if length clause \<le> 250 then clause else take 250 clause @ ''...'')
   \<and> word_overlap a b = card (set a \<inter> set b)"
proof (intro conjI)
  show eq: "extract_relevant_clauses context question =
     take 5 (map (\<lambda>s. clip_clause (strip s))
       (filter (\<lambda>s. 50 < length (strip s)
                  \<and> 2 \<le> word_overlap (split_ws (lower question)) (split_ws (lower s)))
          (split_sentences context)))"
    by (simp add: extract_relevant_clauses_def Let_def concat_clause_of)
  show "length (extract_relevant_clauses context question) \<le> 5"
    by (simp add: extract_relevant_clauses_def Let_def)
  show "\<forall>c\<in>set (extract_relevant_clauses context question). length c \<le> 253"
  proof
    fix c assume "c \<in> set (extract_relevant_clauses context question)"
    then have "c \<in> set (map (\<lambda>s. clip_clause (strip s))
       (filter (\<lambda>s. 50 < length (strip s)
                  \<and> 2 \<le> word_overlap (split_ws (lower question)) (split_ws (lower s)))
          (split_sentences context)))"
      unfolding eq by (rule in_set_takeD)
    then show "length c \<le> 253" by (auto simp: clip_clause_length)
  qed
  show "clip_clause clause = (if length clause \<le> 250 then clause else take 250 clause @ ''...'')"
    by (simp add: clip_clause_def)
  show "word_overlap a b = card (set a \<inter> set b)" by (rule word_overlap_card)
qed

theorem relevant_clauses_kept_witness:
  "extract_relevant_clauses
     ''Rent is due. The payment terms are net thirty days in total for all of them! ok''
     ''What are the payment terms?''
   = [''The payment terms are net thirty days in total for all of them'']"
proof -
  have "take 5 (map (\<lambda>s. clip_clause (strip s))
       (filter (\<lambda>s. 50 < length (strip s)
                  \<and> 2 \<le> word_overlap (split_ws (lower ''What are the payment terms?''))
                          (split_ws (lower s)))
          (split_sentences
             ''Rent is due. The payment terms are net thirty days in total for all of them! ok'')))
        = [''The payment terms are net thirty days in total for all of them'']"
    by code_simp
  with relevant_clauses_kept[of
      "''Rent is due. The payment terms are net thirty days in total for all of them! ok''"
      "''What are the payment terms?''" "[]" "[]" "[]"]
  show ?thesis by (simp only:)
qed

text \<open>
  C5 with the bounds of 30 and 250 characters does not hold: a sentence of 43 characters
  that shares two words with the question is not kept, and a sentence of 264 characters
  gives a clause of 253 characters.
\<close>

theorem relevant_clauses_counterexample:
  "split_sentences ''the payment terms are net thirty days total. ok''
     = [''the payment terms are net thirty days total'', '' ok'']
   \<and> 30 < length (strip ''the payment terms are net thirty days total'')
   \<and> 2 \<le> word_overlap (split_ws (lower ''payment terms''))
            (split_ws (lower ''the payment terms are net thirty days total''))
   \<and> extract_relevant_clauses ''the payment terms are net thirty days total. ok'' ''payment terms'' = []
   \<and> extract_relevant_clauses (''payment terms '' @ replicate 250 (CHR ''x'')) ''payment terms''
       = [''payment terms '' @ replicate 236 (CHR ''x'') @ ''...'']
   \<and> length (''payment terms '' @ replicate 236 (CHR ''x'') @ ''...'') = 253"
  by code_simp

subsection \<open>Substrings\<close>

lemma startswith_iff: "startswith s p \<longleftrightarrow> (\<exists>v. s = p @ v)"
  by (induction s p rule: startswith.induct) auto

lemma str_in_iff: "str_in p s \<longleftrightarrow> (\<exists>u v. s = u @ p @ v)"
proof (induction s)
  case Nil
  then show ?case by auto
next
  case (Cons c cs)
  show ?case
  proof
    assume "str_in p (c # cs)"
    then consider "startswith (c # cs) p" | "str_in p cs" by auto
    then show "\<exists>u v. c # cs = u @ p @ v"
    proof cases
      case 1
      then obtain v where "c # cs = p @ v" by (auto simp: startswith_iff)
      then have "c # cs = [] @ p @ v" by simp
      then show ?thesis by blast
    next
      case 2
      with Cons.IH obtain u v where "cs = u @ p @ v" by blast
      then have "c # cs = (c # u) @ p @ v" by simp
      then show ?thesis by blast
    qed
  next
    assume "\<exists>u v. c # cs = u @ p @ v"
    then obtain u v where uv: "c # cs = u @ p @ v" by blast
    show "str_in p (c # cs)"
    proof (cases u)
      case Nil
      with uv have "startswith (c # cs) p" by (auto simp: startswith_iff)
      then show ?thesis by simp
    next
      case (Cons d u')
      with uv have "cs = u' @ p @ v" by simp
      with Cons.IH have "str_in p cs" by blast
      then show ?thesis by simp
    qed
  qed
qed

lemma str_in_join:
  assumes "x \<in> set xs"
  shows "str_in x (join sep xs)"
  using assms
proof (induction sep xs rule: join.induct)
  case (1 sep)
  then show ?case by simp
next
  case (2 sep y)
  then have "join sep [y] = [] @ x @ []" by simp
  then show ?case unfolding str_in_iff by blast
next
  case (3 sep y z zs)
  show ?case
  proof (cases "x = y")
    case True
    then have "join sep (y # z # zs) = [] @ x @ (sep @ join sep (z # zs))" by simp
    then show ?thesis unfolding str_in_iff by blast
  next
    case False
    with 3 have "str_in x (join sep (z # zs))" by simp
    then obtain u v where "join sep (z # zs) = u @ x @ v" unfolding str_in_iff by blast
    then have "join sep (y # z # zs) = (y @ sep @ u) @ x @ v" by simp
    then show ?thesis unfolding str_in_iff by blast
  qed
qed

lemma str_in_append_left: "str_in p s \<Longrightarrow> str_in p (h @ s)"
proof -
  assume "str_in p s"
  then obtain u v where "s = u @ p @ v" unfolding str_in_iff by blast
  then have "h @ s = (h @ u) @ p @ v" by simp
  then show ?thesis unfolding str_in_iff by blast
qed

lemma str_in_trans: "str_in p q \<Longrightarrow> str_in q s \<Longrightarrow> str_in p s"
proof -
  assume "str_in p q" "str_in q s"
  then obtain u v u' v' where "q = u @ p @ v" "s = u' @ q @ v'" unfolding str_in_iff by blast
  then have "s = (u' @ u) @ p @ (v @ v')" by simp
  then show ?thesis unfolding str_in_iff by blast
qed

text \<open>Stripping a line keeps every substring that neither starts nor ends with white space.\<close>

lemma dropWhile_keeps:
  assumes "\<not> P a"
  shows "\<exists>u'. dropWhile P (u @ a # w) = u' @ a # w"
  using assms by (induction u) auto

lemma str_in_strip:
  assumes "str_in (a # q @ [b]) s" and "\<not> is_space a" and "\<not> is_space b"
  shows "str_in (a # q @ [b]) (strip s)"
proof -
  from assms(1) obtain u v where s: "s = u @ (a # q @ [b]) @ v" unfolding str_in_iff by blast
  then have "s = u @ a # (q @ [b] @ v)" by simp
  with dropWhile_keeps[of is_space a u "q @ [b] @ v"] assms(2) obtain u' where
    "dropWhile is_space s = u' @ a # (q @ [b] @ v)" by auto
  then have "rev (dropWhile is_space s) = rev v @ b # (rev q @ a # rev u')" by simp
  with dropWhile_keeps[of is_space b "rev v" "rev q @ a # rev u'"] assms(3) obtain v' where
    "dropWhile is_space (rev (dropWhile is_space s)) = v' @ b # (rev q @ a # rev u')" by auto
  then have "strip s = u' @ (a # q @ [b]) @ rev v'" by (simp add: strip_def)
  then show ?thesis unfolding str_in_iff by blast
qed

subsection \<open>The fallback of the question answering\<close>

lemma payment_question:
  "keyword_answer ''What is the payment schedule?'' context =
     topic_answer
       (''Based on the contract, here are the payment-related terms:'' @ [CHR 0x0A, CHR 0x0A])
       ''No specific payment terms found in this contract.''
       (topic_lines [''payment'', ''pay'', ''fee'', ''cost'', ''$'', ''amount''] context)"
proof -
  have "any_in [''payment'', ''pay'', ''cost'', ''fee'', ''money'', ''amount'']
          (lower ''What is the payment schedule?'')"
    by code_simp
  then show ?thesis by (simp add: keyword_answer_def Let_def)
qed

text \<open>
  C4, as the code has it. Without a client, and when the call of the client raises,
  \<open>ask_openai_question\<close> returns what \<open>ask_keyword_question\<close> returns: no failure of the
  client reaches the caller. That answer has confidence 0.7 and the four fixed follow-up
  questions. Without a client, the answer to "What is the payment schedule?" holds the
  line with "$500 due monthly", stripped, when that line is among the first three lines of
  the context that hold a payment word (payment, pay, fee, cost, $, amount): only three
  lines are quoted.
\<close>

theorem qa_fallback:
  "ask_openai_question None question context = ask_keyword_question question context
   \<and> (generate_content (prompt question context) = Inl e \<longrightarrow>
        ask_openai_question (Some generate_content) question context
          = ask_keyword_question question context)
   \<and> confidence (ask_keyword_question question context) = 7 / 10
   \<and> follow_up_suggestions (ask_keyword_question question context) =
        [''What are the payment terms?'', ''How can this contract be terminated?'',
         ''What are the main obligations?'', ''What are the liability provisions?'']
   \<and> (str_in ''$500 due monthly'' line
        \<and> line \<in> set (take 3 (filter
              (\<lambda>section. any_in [''payment'', ''pay'', ''fee'', ''cost'', ''$'', ''amount''] (lower section))
              (split_on (CHR 0x0A) context)))
        \<longrightarrow> str_in (strip line)
              (answer (ask_openai_question None ''What is the payment schedule?'' context))
            \<and> str_in ''$500 due monthly''
              (answer (ask_openai_question None ''What is the payment schedule?'' context)))"
proof (intro conjI impI)
  show "ask_openai_question None question context = ask_keyword_question question context"
    by (simp add: ask_openai_question_def)
next
  assume "generate_content (prompt question context) = Inl e"
  then show "ask_openai_question (Some generate_content) question context
          = ask_keyword_question question context"
    by (simp add: ask_openai_question_def)
next
  show "confidence (ask_keyword_question question context) = 7 / 10"
    by (simp add: ask_keyword_question_def)
next
  show "follow_up_suggestions (ask_keyword_question question context) =
        [''What are the payment terms?'', ''How can this contract be terminated?'',
         ''What are the main obligations?'', ''What are the liability provisions?'']"
    by (simp add: ask_keyword_question_def)
next
  let ?words = "[''payment'', ''pay'', ''fee'', ''cost'', ''$'', ''amount'']"
  let ?info = "topic_lines ?words context"
  let ?ans = "answer (ask_openai_question None ''What is the payment schedule?'' context)"
  assume a: "str_in ''$500 due monthly'' line
        \<and> line \<in> set (take 3 (filter (\<lambda>section. any_in ?words (lower section))
              (split_on (CHR 0x0A) context)))"
  then have "strip line \<in> strip ` set (take 3 (filter (\<lambda>section. any_in ?words (lower section))
              (split_on (CHR 0x0A) context)))" by blast
  then have mem: "strip line \<in> set (take 3 ?info)"
    by (simp add: topic_lines_def take_map)
  then have ne: "?info \<noteq> []" by auto
  have ans: "?ans = (''Based on the contract, here are the payment-related terms:'' @ [CHR 0x0A, CHR 0x0A])
                     @ join [CHR 0x0A, CHR 0x0A] (take 3 ?info)"
    using ne by (simp add: ask_openai_question_def ask_keyword_question_def payment_question
        topic_answer_def)
  from mem have "str_in (strip line) (join [CHR 0x0A, CHR 0x0A] (take 3 ?info))"
    by (rule str_in_join)
  then have one: "str_in (strip line) ?ans" unfolding ans by (rule str_in_append_left)
  have sp: "\<not> is_space (CHR ''$'')" "\<not> is_space (CHR ''y'')" by (simp_all add: is_space_def)
  have "str_in (CHR ''$'' # ''500 due monthl'' @ [CHR ''y'']) (strip line)"
    using a sp by (intro str_in_strip) simp_all
  then have "str_in ''$500 due monthly'' (strip line)" by simp
  then have two: "str_in ''$500 due monthly'' ?ans" using one by (rule str_in_trans)
  from one show "str_in (strip line) ?ans" .
  from two show "str_in ''$500 due monthly'' ?ans" .
qed


theorem qa_fallback_witness:
  "ask_openai_question (Some (\<lambda>p. Inl (Exception ''timeout''))) ''What is the payment schedule?''
     (''Rent'' @ [CHR 0x0A] @ ''  $500 due monthly  '' @ [CHR 0x0A] @ ''Signed'')
   = ask_keyword_question ''What is the payment schedule?''
     (''Rent'' @ [CHR 0x0A] @ ''  $500 due monthly  '' @ [CHR 0x0A] @ ''Signed'')
   \<and> str_in ''$500 due monthly''
        (answer (ask_openai_question None ''What is the payment schedule?''
           (''Rent'' @ [CHR 0x0A] @ ''  $500 due monthly  '' @ [CHR 0x0A] @ ''Signed'')))
   \<and> confidence (ask_keyword_question ''What is the payment schedule?''
           (''Rent'' @ [CHR 0x0A] @ ''  $500 due monthly  '' @ [CHR 0x0A] @ ''Signed'')) = 7 / 10"
proof -
  let ?c = "''Rent'' @ [CHR 0x0A] @ ''  $500 due monthly  '' @ [CHR 0x0A] @ ''Signed''"
  let ?q = "''What is the payment schedule?''"
  note th = qa_fallback[of ?q ?c "\<lambda>p. Inl (Exception ''timeout'')" "Exception ''timeout''"
      "''  $500 due monthly  ''"]
  have h1: "str_in ''$500 due monthly'' ''  $500 due monthly  ''" by code_simp
  have h2: "''  $500 due monthly  '' \<in> set (take 3 (filter
              (\<lambda>section. any_in [''payment'', ''pay'', ''fee'', ''cost'', ''$'', ''amount''] (lower section))
              (split_on (CHR 0x0A) ?c)))"
    by code_simp
  from th have a: "ask_openai_question (Some (\<lambda>p. Inl (Exception ''timeout''))) ?q ?c
      = ask_keyword_question ?q ?c" by blast
  from th h1 h2 have b: "str_in ''$500 due monthly'' (answer (ask_openai_question None ?q ?c))"
    by blast
  from th have c: "confidence (ask_keyword_question ?q ?c) = 7 / 10" by blast
  from a b c show ?thesis by blast
qed

text \<open>
  C4 for every context with such a line does not hold. A context of four lines, the fourth
  one "$500 due monthly" and the three before it each with a payment word: the answer
  quotes the first three lines and not the fourth.
\<close>

theorem qa_payment_line_counterexample:
  "split_on (CHR 0x0A)
     (''Pay rent'' @ [CHR 0x0A] @ ''Pay tax'' @ [CHR 0x0A] @ ''Pay fees'' @ [CHR 0x0A] @ ''$500 due monthly'')
     = [''Pay rent'', ''Pay tax'', ''Pay fees'', ''$500 due monthly'']
   \<and> answer (ask_openai_question None ''What is the payment schedule?''
       (''Pay rent'' @ [CHR 0x0A] @ ''Pay tax'' @ [CHR 0x0A] @ ''Pay fees'' @ [CHR 0x0A] @ ''$500 due monthly''))
     = ''Based on the contract, here are the payment-related terms:'' @ [CHR 0x0A, CHR 0x0A]
       @ ''Pay rent'' @ [CHR 0x0A, CHR 0x0A] @ ''Pay tax'' @ [CHR 0x0A, CHR 0x0A] @ ''Pay fees''
   \<and> \<not> str_in ''$500 due monthly''
       (answer (ask_openai_question None ''What is the payment schedule?''
         (''Pay rent'' @ [CHR 0x0A] @ ''Pay tax'' @ [CHR 0x0A] @ ''Pay fees'' @ [CHR 0x0A] @ ''$500 due monthly'')))"
  by code_simp

subsection \<open>The orchestrator\<close>

lemma and_then_Inr_iff: "and_then m f = Inr r \<longleftrightarrow> (\<exists>x. m = Inr x \<and> f x = Inr r)"
  by (cases m) (simp_all add: and_then_def)

lemma and_then_Inr: "and_then (Inr x) f = f x"
  by (simp add: and_then_def)

lemma for_each_returns:
  assumes "\<forall>x\<in>set xs. \<exists>y. f x = Inr y"
  shows "\<exists>ys. for_each f xs = Inr ys \<and> length ys = length xs"
  using assms
proof (induction xs)
  case Nil
  then show ?case by simp
next
  case (Cons x xs)
  then obtain y ys where "f x = Inr y" "for_each f xs = Inr ys" "length ys = length xs" by auto
  then show ?case by (simp add: and_then_Inr)
qed

text \<open>A library whose calls all return.\<close>

lemma extract_key_entities_returns:
  assumes "\<forall>p s. \<exists>r. re_findall lib p s = Inr r"
  shows "\<exists>r. extract_key_entities lib text = Inr r"
proof -
  have "\<forall>x\<in>set entity_patterns. \<exists>y.
          (\<lambda>(entity_type, pattern). and_then (re_findall lib pattern text)
             (\<lambda>matches. Inr (entity_type, take 10 (set_list lib matches)))) x = Inr y"
  proof
    fix x :: "string \<times> string"
    obtain entity_type pattern where x: "x = (entity_type, pattern)" by (cases x) auto
    from assms obtain r where "re_findall lib pattern text = Inr r" by blast
    then show "\<exists>y. (\<lambda>(entity_type, pattern). and_then (re_findall lib pattern text)
             (\<lambda>matches. Inr (entity_type, take 10 (set_list lib matches)))) x = Inr y"
      by (simp add: x and_then_Inr)
  qed
  then show ?thesis unfolding extract_key_entities_def using for_each_returns by blast
qed

lemma findall_each_returns:
  assumes "\<forall>p s. \<exists>r. re_findall lib p s = Inr r"
  shows "\<exists>r. for_each (\<lambda>pattern. re_findall lib pattern text) patterns = Inr r"
  using for_each_returns[of patterns "\<lambda>pattern. re_findall lib pattern text"] assms by blast

lemma extract_financial_terms_returns:
  assumes "\<forall>p s. \<exists>r. re_findall lib p s = Inr r"
  shows "\<exists>r a. extract_financial_terms lib text = Inr r \<and> getitem r ''amounts'' = Inr a"
proof -
  from findall_each_returns[OF assms] obtain a where
    a: "for_each (\<lambda>pattern. re_findall lib pattern text) amount_patterns = Inr a" by blast
  from findall_each_returns[OF assms] obtain b where
    b: "for_each (\<lambda>pattern. re_findall lib pattern text) payment_patterns = Inr b" by blast
  from findall_each_returns[OF assms] obtain c where
    c: "for_each (\<lambda>pattern. re_findall lib pattern text) interest_patterns = Inr c" by blast
  from findall_each_returns[OF assms] obtain d where
    d: "for_each (\<lambda>pattern. re_findall lib pattern text) payment_method_patterns = Inr d" by blast
  show ?thesis
    by (simp add: extract_financial_terms_def a b c d and_then_Inr getitem_def)
qed

lemma extract_timeline_returns:
  assumes "\<forall>p s. \<exists>r. re_findall lib p s = Inr r"
  shows "\<exists>r. extract_timeline lib text = Inr r"
proof -
  have "\<forall>x\<in>set date_patterns. \<exists>y.
          (\<lambda>(pattern, event_type). and_then (re_findall lib pattern text) (\<lambda>matches.
              Inr (map (\<lambda>match. [(''date'', match), (''event'', event_type),
                                    (''type'', ''milestone'')]) matches))) x = Inr y"
  proof
    fix x :: "string \<times> string"
    obtain pattern event_type where x: "x = (pattern, event_type)" by (cases x) auto
    from assms obtain r where "re_findall lib pattern text = Inr r" by blast
    then show "\<exists>y. (\<lambda>(pattern, event_type). and_then (re_findall lib pattern text) (\<lambda>matches.
              Inr (map (\<lambda>match. [(''date'', match), (''event'', event_type),
                                    (''type'', ''milestone'')]) matches))) x = Inr y"
      by (simp add: x and_then_Inr)
  qed
  with for_each_returns obtain ys where "for_each
          (\<lambda>(pattern, event_type). and_then (re_findall lib pattern text) (\<lambda>matches.
              Inr (map (\<lambda>match. [(''date'', match), (''event'', event_type),
                                    (''type'', ''milestone'')]) matches))) date_patterns = Inr ys"
    by blast
  then show ?thesis by (simp add: extract_timeline_def and_then_Inr)
qed

lemma first_subject_returns:
  assumes "\<forall>p s. \<exists>r. re_search lib p s = Inr r"
  shows "\<exists>r. first_subject lib patterns text = Inr r"
proof (induction patterns)
  case Nil
  then show ?case by simp
next
  case (Cons pattern patterns)
  from assms obtain m where "re_search lib pattern text = Inr m" by blast
  with Cons show ?case by (cases m) (auto simp: and_then_Inr Let_def)
qed

lemma extract_main_subject_returns:
  assumes "\<forall>p s. \<exists>r. re_search lib p s = Inr r"
  shows "\<exists>r. extract_main_subject lib text contract_type = Inr r"
proof -
  from first_subject_returns[OF assms] obtain found where
    "first_subject lib subject_patterns text = Inr found" by blast
  then show ?thesis by (cases found) (simp_all add: extract_main_subject_def and_then_Inr)
qed

lemma generate_executive_summary_returns:
  assumes "\<forall>p s. \<exists>r. re_findall lib p s = Inr r" and "\<forall>p s. \<exists>r. re_search lib p s = Inr r"
  shows "\<exists>r. generate_executive_summary lib text sections financial_terms risk = Inr r"
proof -
  from extract_main_subject_returns[OF assms(2)] obtain ms where
    "extract_main_subject lib text (determine_contract_type text) = Inr ms" by blast
  moreover from extract_timeline_returns[OF assms(1)] obtain tl where
    "extract_timeline lib text = Inr tl" by blast
  ultimately show ?thesis
    by (simp add: generate_executive_summary_def Let_def and_then_Inr)
qed

lemma all_obligations_present:
  "\<exists>found. getitem (extract_precise_obligations text) ''all_obligations'' = Inr found"
  by (simp add: extract_precise_obligations_lists obligation_categories_def getitem_def)

lemma process_steps_success:
  assumes "process_steps lib text = Inr response"
  shows "\<exists>executive_summary key_points financial_terms timeline contract_type main_subject
            key_terms obligations risk sections entities simplified_text.
          response = PDict
            [(''processing_status'', PStr ''success''),
             (''detailed_summary'', PDict
                [(''executive_summary'', executive_summary),
                 (''key_points'', key_points),
                 (''financial_terms'', financial_terms),
                 (''timeline'', timeline),
                 (''contract_type'', contract_type),
                 (''main_subject'', main_subject)]),
             (''key_terms'', key_terms),
             (''obligations'', obligations),
             (''risk_assessment'', risk),
             (''sections'', sections),
             (''entities'', entities),
             (''simplified_text'', simplified_text)]"
  using assms unfolding process_steps_def Let_def and_then_Inr_iff by blast

lemma process_steps_returns:
  assumes "\<forall>p s. \<exists>r. re_findall lib p s = Inr r" and "\<forall>p s. \<exists>r. re_search lib p s = Inr r"
  shows "\<exists>response. process_steps lib text = Inr response"
proof -
  from extract_key_entities_returns[OF assms(1)] obtain en where
    en: "extract_key_entities lib text = Inr en" by blast
  from extract_financial_terms_returns[OF assms(1)] obtain ft am where
    ft: "extract_financial_terms lib text = Inr ft" "getitem ft ''amounts'' = Inr am" by blast
  from extract_timeline_returns[OF assms(1)] obtain tl where
    tl: "extract_timeline lib text = Inr tl" by blast
  from extract_main_subject_returns[OF assms(2)] obtain ms where
    ms: "extract_main_subject lib text (determine_contract_type text) = Inr ms" by blast
  from generate_executive_summary_returns[OF assms] obtain es where
    es: "generate_executive_summary lib text (identify_contract_sections text) ft
           (assess_contract_risks text) = Inr es" by blast
  from all_obligations_present obtain ob where
    ob: "getitem (extract_precise_obligations text) ''all_obligations'' = Inr ob" by blast
  show ?thesis
    by (simp add: process_steps_def Let_def en ft tl ms es ob and_then_Inr)
qed


text \<open>
  C1. For every text, and whatever the regular expression engine does, \<open>process_contract\<close>
  returns one of two dictionaries: the result with \<^verbatim>\<open>processing_status\<close> "success" and all
  the fixed keys (the detailed summary with its six keys, the key terms, the obligations,
  the risk assessment, the sections, the entities and the simplified text), or the result
  with \<^verbatim>\<open>processing_status\<close> "failed" and the key \<^verbatim>\<open>error\<close> with a string. The failed
  result is what it returns exactly when a statement of the \<^verbatim>\<open>try\<close> block raises; with an
  engine whose calls all return, none does and the result is the success one.
\<close>

theorem process_contract_returns:
  "((\<exists>executive_summary key_points financial_terms timeline contract_type main_subject
        key_terms obligations risk sections entities simplified_text.
       process_contract lib text = PDict
         [(''processing_status'', PStr ''success''),
          (''detailed_summary'', PDict
             [(''executive_summary'', executive_summary),
              (''key_points'', key_points),
              (''financial_terms'', financial_terms),
              (''timeline'', timeline),
              (''contract_type'', contract_type),
              (''main_subject'', main_subject)]),
          (''key_terms'', key_terms),
          (''obligations'', obligations),
          (''risk_assessment'', risk),
          (''sections'', sections),
          (''entities'', entities),
          (''simplified_text'', simplified_text)])
     \<or> (\<exists>e. process_steps lib text = Inl (Exception e)
            \<and> process_contract lib text = PDict
                 [(''processing_status'', PStr ''failed''),
                  (''error'', PStr (''Contract processing failed: '' @ e))]))
   \<and> ((\<forall>p s. \<exists>r. re_findall lib p s = Inr r) \<and> (\<forall>p s. \<exists>r. re_search lib p s = Inr r) \<longrightarrow>
        (\<exists>detailed_summary key_terms obligations risk sections entities simplified_text.
           process_contract lib text = PDict
             [(''processing_status'', PStr ''success''),
              (''detailed_summary'', detailed_summary),
              (''key_terms'', key_terms),
              (''obligations'', obligations),
              (''risk_assessment'', risk),
              (''sections'', sections),
              (''entities'', entities),
              (''simplified_text'', simplified_text)]))"
proof (intro conjI impI)
  show "(\<exists>executive_summary key_points financial_terms timeline contract_type main_subject
        key_terms obligations risk sections entities simplified_text.
       process_contract lib text = PDict
         [(''processing_status'', PStr ''success''),
          (''detailed_summary'', PDict
             [(''executive_summary'', executive_summary),
              (''key_points'', key_points),
              (''financial_terms'', financial_terms),
              (''timeline'', timeline),
              (''contract_type'', contract_type),
              (''main_subject'', main_subject)]),
          (''key_terms'', key_terms),
          (''obligations'', obligations),
          (''risk_assessment'', risk),
          (''sections'', sections),
          (''entities'', entities),
          (''simplified_text'', simplified_text)])
     \<or> (\<exists>e. process_steps lib text = Inl (Exception e)
            \<and> process_contract lib text = PDict
                 [(''processing_status'', PStr ''failed''),
                  (''error'', PStr (''Contract processing failed: '' @ e))])"
  proof (cases "process_steps lib text")
    case (Inl x)
    obtain e where "x = Exception e" by (cases x) auto
    with Inl have "process_steps lib text = Inl (Exception e)
            \<and> process_contract lib text = PDict
                 [(''processing_status'', PStr ''failed''),
                  (''error'', PStr (''Contract processing failed: '' @ e))]"
      by (simp add: process_contract_def)
    then show ?thesis by blast
  next
    case (Inr response)
    then have "process_contract lib text = response" by (simp add: process_contract_def)
    with process_steps_success[OF Inr] show ?thesis by blast
  qed
next
  assume "(\<forall>p s. \<exists>r. re_findall lib p s = Inr r) \<and> (\<forall>p s. \<exists>r. re_search lib p s = Inr r)"
  then obtain response where r: "process_steps lib text = Inr response"
    using process_steps_returns by blast
  then have "process_contract lib text = response" by (simp add: process_contract_def)
  with process_steps_success[OF r]
  show "\<exists>detailed_summary key_terms obligations risk sections entities simplified_text.
           process_contract lib text = PDict
             [(''processing_status'', PStr ''success''),
              (''detailed_summary'', detailed_summary),
              (''key_terms'', key_terms),
              (''obligations'', obligations),
              (''risk_assessment'', risk),
              (''sections'', sections),
              (''entities'', entities),
              (''simplified_text'', simplified_text)]"
    by blast
qed

theorem process_contract_returns_witness:
  "(\<exists>detailed_summary key_terms obligations risk sections entities simplified_text.
      process_contract \<lparr>re_findall = (\<lambda>p s. Inr []), re_search = (\<lambda>p s. Inr None), set_list = remdups\<rparr>
        ''The tenant shall pay rent.'' = PDict
         [(''processing_status'', PStr ''success''),
          (''detailed_summary'', detailed_summary),
          (''key_terms'', key_terms),
          (''obligations'', obligations),
          (''risk_assessment'', risk),
          (''sections'', sections),
          (''entities'', entities),
          (''simplified_text'', simplified_text)])
   \<and> process_contract
        \<lparr>re_findall = (\<lambda>p s. Inr []), re_search = (\<lambda>p s. Inl (Exception ''boom'')), set_list = remdups\<rparr>
        ''The tenant shall pay rent.''
       = PDict [(''processing_status'', PStr ''failed''),
                (''error'', PStr ''Contract processing failed: boom'')]"
proof -
  let ?lib = "\<lparr>re_findall = (\<lambda>p s. Inr []), re_search = (\<lambda>p s. Inr None), set_list = remdups\<rparr>"
  have "(\<forall>p s. \<exists>r. re_findall ?lib p s = Inr r) \<and> (\<forall>p s. \<exists>r. re_search ?lib p s = Inr r)"
    by simp
  with process_contract_returns[of ?lib "''The tenant shall pay rent.''"]
  have a: "\<exists>detailed_summary key_terms obligations risk sections entities simplified_text.
      process_contract ?lib ''The tenant shall pay rent.'' = PDict
         [(''processing_status'', PStr ''success''),
          (''detailed_summary'', detailed_summary),
          (''key_terms'', key_terms),
          (''obligations'', obligations),
          (''risk_assessment'', risk),
          (''sections'', sections),
          (''entities'', entities),
          (''simplified_text'', simplified_text)]"
    by blast
  have b: "process_contract
        \<lparr>re_findall = (\<lambda>p s. Inr []), re_search = (\<lambda>p s. Inl (Exception ''boom'')), set_list = remdups\<rparr>
        ''The tenant shall pay rent.''
       = PDict [(''processing_status'', PStr ''failed''),
                (''error'', PStr ''Contract processing failed: boom'')]"
    by (simp add: process_contract_def process_steps_def Let_def extract_key_entities_def
        extract_financial_terms_def extract_timeline_def entity_patterns_def amount_patterns_def
        payment_patterns_def interest_patterns_def payment_method_patterns_def date_patterns_def
        and_then_def extract_main_subject_def subject_patterns_def)
  from a b show ?thesis by blast
qed

subsection \<open>Two calls on the same text\<close>

lemma for_each_same_failure:
  assumes "\<forall>x\<in>set xs. \<forall>e. f x = Inl e \<longleftrightarrow> g x = Inl e"
  shows "for_each f xs = Inl e \<longleftrightarrow> for_each g xs = Inl e"
  using assms
proof (induction xs arbitrary: e)
  case Nil
  then show ?case by simp
next
  case (Cons x xs)
  then have x: "\<forall>e. f x = Inl e \<longleftrightarrow> g x = Inl e"
    and xs: "\<forall>e. for_each f xs = Inl e \<longleftrightarrow> for_each g xs = Inl e" by auto
  show ?case
  proof (cases "f x")
    case (Inl a)
    with x have "g x = Inl a" by blast
    with Inl show ?thesis by (simp add: and_then_def)
  next
    case (Inr y)
    with x obtain y' where g: "g x = Inr y'" by (cases "g x") auto
    show ?thesis
    proof (cases "for_each f xs")
      case (Inl a)
      with xs have "for_each g xs = Inl a" by blast
      with Inl Inr g show ?thesis by (simp add: and_then_def)
    next
      case r: (Inr ys)
      with xs obtain ys' where "for_each g xs = Inr ys'" by (cases "for_each g xs") auto
      with r Inr g show ?thesis by (simp add: and_then_def)
    qed
  qed
qed

lemma first_subject_same:
  assumes "re_search libA = re_search libB"
  shows "first_subject libA patterns text = first_subject libB patterns text"
  by (induction patterns) (simp_all add: assms)

lemma same_engine:
  assumes f: "re_findall libA = re_findall libB" and s: "re_search libA = re_search libB"
  shows "extract_financial_terms libA text = extract_financial_terms libB text"
    and "extract_timeline libA text = extract_timeline libB text"
    and "extract_main_subject libA text contract_type = extract_main_subject libB text contract_type"
    and "generate_executive_summary libA text sections financial_terms risk
         = generate_executive_summary libB text sections financial_terms risk"
proof -
  show ft: "extract_financial_terms libA text = extract_financial_terms libB text"
    by (simp add: extract_financial_terms_def f)
  show tl: "extract_timeline libA text = extract_timeline libB text"
    by (simp add: extract_timeline_def f)
  show ms: "extract_main_subject libA text contract_type = extract_main_subject libB text contract_type"
    for contract_type
    by (simp add: extract_main_subject_def first_subject_same[OF s])
  show "generate_executive_summary libA text sections financial_terms risk
         = generate_executive_summary libB text sections financial_terms risk"
    by (simp add: generate_executive_summary_def ms tl)
qed

lemma extract_key_entities_same_failure:
  assumes "re_findall libA = re_findall libB"
  shows "extract_key_entities libA text = Inl e \<longleftrightarrow> extract_key_entities libB text = Inl e"
  unfolding extract_key_entities_def
proof (rule for_each_same_failure, intro ballI allI)
  fix x :: "string \<times> string" and e'
  obtain entity_type pattern where x: "x = (entity_type, pattern)" by (cases x) auto
  show "(case x of (entity_type, pattern) \<Rightarrow>
           and_then (re_findall libA pattern text)
             (\<lambda>matches. Inr (entity_type, take 10 (set_list libA matches)))) = Inl e'
        \<longleftrightarrow>
        (case x of (entity_type, pattern) \<Rightarrow>
           and_then (re_findall libB pattern text)
             (\<lambda>matches. Inr (entity_type, take 10 (set_list libB matches)))) = Inl e'"
    by (cases "re_findall libB pattern text") (simp_all add: x assms and_then_def)
qed

lemma process_steps_same_engine:
  assumes f: "re_findall libA = re_findall libB" and s: "re_search libA = re_search libB"
  shows "(\<exists>e. process_steps libA text = Inl e \<and> process_steps libB text = Inl e)
         \<or> (\<exists>a b. process_steps libA text = Inr a \<and> process_steps libB text = Inr b
                \<and> without_entities a = without_entities b)"
proof (cases "extract_key_entities libA text")
  case (Inl e)
  with extract_key_entities_same_failure[OF f, of "text" e]
  have "extract_key_entities libB text = Inl e" by blast
  with Inl show ?thesis by (simp add: process_steps_def Let_def and_then_def)
next
  case (Inr ea)
  have "\<exists>eb. extract_key_entities libB text = Inr eb"
  proof (cases "extract_key_entities libB text")
    case l: (Inl a)
    with extract_key_entities_same_failure[OF f, of "text" a] Inr show ?thesis by simp
  next
    case r: (Inr b)
    then show ?thesis by blast
  qed
  then obtain eb where eb: "extract_key_entities libB text = Inr eb" by blast
  note same = same_engine[OF f s]
  show ?thesis
    unfolding process_steps_def Let_def Inr eb same
    by (auto simp: and_then_def without_entities_def split: sum.splits)
qed


text \<open>
  C8, as the code has it. Two calls on the same text whose regular expressions match the
  same return results that are equal in every field but \<^verbatim>\<open>entities\<close>: both fail with the same
  error, or both succeed and differ at most in the entity lists. They are equal in the
  entity lists too when \<^verbatim>\<open>list(set(matches))\<close> yields the same order in both calls. The order
  in which a set yields its elements is the interpreter's; the entity lists are the first
  ten elements in that order.
\<close>

theorem process_contract_same_engine:
  assumes "re_findall libA = re_findall libB" and "re_search libA = re_search libB"
  shows "without_entities (process_contract libA text) = without_entities (process_contract libB text)
         \<and> (set_list libA = set_list libB \<longrightarrow> process_contract libA text = process_contract libB text)"
proof
  from process_steps_same_engine[OF assms, of "text"]
  show "without_entities (process_contract libA text) = without_entities (process_contract libB text)"
    by (auto simp: process_contract_def)
next
  show "set_list libA = set_list libB \<longrightarrow> process_contract libA text = process_contract libB text"
  proof
    assume "set_list libA = set_list libB"
    with assms have "libA = libB" by simp
    then show "process_contract libA text = process_contract libB text" by simp
  qed
qed

theorem process_contract_same_engine_witness:
  "without_entities (process_contract
      \<lparr>re_findall = (\<lambda>p s. if p = snd (entity_patterns ! 0) \<or> p = amount_patterns ! 0
                          then Inr [''$5'', ''$7''] else Inr []),
       re_search = (\<lambda>p s. Inr None), set_list = remdups\<rparr>
      ''The tenant shall pay $5 or $7.'')
   = without_entities (process_contract
      \<lparr>re_findall = (\<lambda>p s. if p = snd (entity_patterns ! 0) \<or> p = amount_patterns ! 0
                          then Inr [''$5'', ''$7''] else Inr []),
       re_search = (\<lambda>p s. Inr None), set_list = rev \<circ> remdups\<rparr>
      ''The tenant shall pay $5 or $7.'')"
proof -
  let ?f = "\<lambda>(p :: string) (s :: string). if p = snd (entity_patterns ! 0) \<or> p = amount_patterns ! 0
                          then (Inr [''$5'', ''$7''] :: exn + string list) else Inr []"
  let ?s = "\<lambda>(p :: string) (s :: string). (Inr None :: exn + string option)"
  let ?A = "\<lparr>re_findall = ?f, re_search = ?s, set_list = remdups\<rparr>"
  let ?B = "\<lparr>re_findall = ?f, re_search = ?s, set_list = rev \<circ> remdups\<rparr>"
  have "re_findall ?A = re_findall ?B" and "re_search ?A = re_search ?B" by simp_all
  from process_contract_same_engine[OF this, of "''The tenant shall pay $5 or $7.''"]
  show ?thesis by (rule conjunct1)
qed

text \<open>
  C8 for the entity lists does not hold. The text has the amounts "$5" and "$7"; the two
  calls see the same matches and two orders of the set of matches, and the lists of
  amounts they return are in different orders.
\<close>

theorem process_contract_set_order_counterexample:
  "extract_key_entities
      \<lparr>re_findall = (\<lambda>p s. if p = snd (entity_patterns ! 0) \<or> p = amount_patterns ! 0
                          then Inr [''$5'', ''$7''] else Inr []),
       re_search = (\<lambda>p s. Inr None), set_list = remdups\<rparr>
      ''The tenant shall pay $5 or $7.''
   = Inr [(''amounts'', [''$5'', ''$7'']), (''dates'', []), (''percentages'', []),
          (''timeframes'', []), (''addresses'', []), (''phone_numbers'', []),
          (''email_addresses'', [])]
   \<and> extract_key_entities
      \<lparr>re_findall = (\<lambda>p s. if p = snd (entity_patterns ! 0) \<or> p = amount_patterns ! 0
                          then Inr [''$5'', ''$7''] else Inr []),
       re_search = (\<lambda>p s. Inr None), set_list = rev \<circ> remdups\<rparr>
      ''The tenant shall pay $5 or $7.''
   = Inr [(''amounts'', [''$7'', ''$5'']), (''dates'', []), (''percentages'', []),
          (''timeframes'', []), (''addresses'', []), (''phone_numbers'', []),
          (''email_addresses'', [])]
   \<and> process_contract
      \<lparr>re_findall = (\<lambda>p s. if p = snd (entity_patterns ! 0) \<or> p = amount_patterns ! 0
                          then Inr [''$5'', ''$7''] else Inr []),
       re_search = (\<lambda>p s. Inr None), set_list = remdups\<rparr>
      ''The tenant shall pay $5 or $7.''
   \<noteq> process_contract
      \<lparr>re_findall = (\<lambda>p s. if p = snd (entity_patterns ! 0) \<or> p = amount_patterns ! 0
                          then Inr [''$5'', ''$7''] else Inr []),
       re_search = (\<lambda>p s. Inr None), set_list = rev \<circ> remdups\<rparr>
      ''The tenant shall pay $5 or $7.''"
  by code_simp

end
